theory Spec2Isabelle
  imports Main "HOL-Library.Sublist"
begin

section \<open>Gmail to Google Calendar interface: the subject-line parser and the scheduler\<close>

text \<open>
  A shallow embedding of \<^verbatim>\<open>Joel_Swenson_gmail-gcal-interface-cli.py\<close>:
  \<^verbatim>\<open>parse_event_time\<close>, \<^verbatim>\<open>extract_event_details\<close>, \<^verbatim>\<open>check_existing_event\<close>,
  \<^verbatim>\<open>create_calendar_event\<close> and \<^verbatim>\<open>main\<close>, together with the pieces of the Python
  library they call (\<^verbatim>\<open>str.split\<close>, \<^verbatim>\<open>str.strip\<close>, \<^verbatim>\<open>datetime.strptime\<close>,
  \<^verbatim>\<open>datetime.isoformat\<close>, \<^verbatim>\<open>datetime.fromisoformat\<close>, \<^verbatim>\<open>datetime.astimezone\<close>).

  Conventions. A Python \<^verbatim>\<open>str\<close> is a \<^typ>\<open>string\<close>; a \<^typ>\<open>char\<close> stands for a code point
  below 256, so the model covers subject lines in that range. A function that returns
  \<^verbatim>\<open>None\<close> on failure returns a sum whose left side names the message it prints; a raised
  exception is the left side of a sum of type \<open>exn + 'a\<close>.
\<close>

subsection \<open>Python strings\<close>

definition isspace :: "char \<Rightarrow> bool" where
  \<comment> \<open>\<^verbatim>\<open>str.isspace\<close>, also the regular expression class \<^verbatim>\<open>\s\<close>, below code point 256\<close>
  "isspace c \<longleftrightarrow> (of_char c :: nat) \<in> {9, 10, 11, 12, 13, 28, 29, 30, 31, 32, 133, 160}"

definition lstrip :: "string \<Rightarrow> string" where
  "lstrip s = dropWhile isspace s"

definition rstrip :: "string \<Rightarrow> string" where
  "rstrip s = rev (dropWhile isspace (rev s))"

definition strip :: "string \<Rightarrow> string" where
  \<comment> \<open>\<^verbatim>\<open>s.strip()\<close>\<close>
  "strip s = rstrip (lstrip s)"

definition lower :: "char \<Rightarrow> char" where
  \<comment> \<open>\<^verbatim>\<open>str.lower\<close> on one character: only A to Z have a lower-case form in a to z\<close>
  "lower c = (if 65 \<le> (of_char c :: nat) \<and> (of_char c :: nat) \<le> 90
              then char_of (of_char c + 32 :: nat) else c)"

text \<open>
  \<^verbatim>\<open>s.partition(sep)\<close>: the text before the first occurrence of \<open>sep\<close>, scanning from
  the left, and the text after it; \<open>None\<close> when \<open>sep\<close> does not occur.
\<close>

fun find_sep :: "string \<Rightarrow> string \<Rightarrow> (string \<times> string) option" where
  "find_sep sep [] = (if sep = [] then Some ([], []) else None)"
| "find_sep sep (c # cs) =
     (if prefix sep (c # cs) then Some ([], drop (length sep) (c # cs))
      else map_option (\<lambda>(a, b). (c # a, b)) (find_sep sep cs))"

lemma find_sep_shorter:
  "find_sep sep s = Some (a, b) \<Longrightarrow> sep \<noteq> [] \<Longrightarrow> length b < length s"
proof (induction s arbitrary: a)
  case Nil
  then show ?case by simp
next
  case (Cons c cs)
  show ?case
  proof (cases "prefix sep (c # cs)")
    case True
    with Cons.prems show ?thesis by (cases sep) auto
  next
    case False
    with Cons.prems obtain a' where "find_sep sep cs = Some (a', b)" by auto
    with Cons.IH Cons.prems(2) show ?thesis by fastforce
  qed
qed

text \<open>
  \<^verbatim>\<open>s.split(sep)\<close> with no limit: every occurrence of \<open>sep\<close> found from left to right,
  without overlap, separates two pieces. Python raises \<^verbatim>\<open>ValueError\<close> on an empty
  separator; the two call sites pass non-empty literals, and the model returns the
  whole string there.
\<close>

function split_py :: "string \<Rightarrow> string \<Rightarrow> string list" where
  "split_py sep s =
     (if sep = [] then [s]
      else case find_sep sep s of
             None \<Rightarrow> [s]
           | Some (a, b) \<Rightarrow> a # split_py sep b)"
  by pat_completeness auto
termination
  by (relation "measure (\<lambda>(sep, s). length s)") (auto dest: find_sep_shorter)

declare split_py.simps [simp del]

text \<open>\<^verbatim>\<open>s.count(sep)\<close>: the number of occurrences found the same way.\<close>

function count_py :: "string \<Rightarrow> string \<Rightarrow> nat" where
  "count_py sep s =
     (if sep = [] then Suc (length s)
      else case find_sep sep s of
             None \<Rightarrow> 0
           | Some (a, b) \<Rightarrow> Suc (count_py sep b))"
  by pat_completeness auto
termination
  by (relation "measure (\<lambda>(sep, s). length s)") (auto dest: find_sep_shorter)

declare count_py.simps [simp del]

subsection \<open>Naive timestamps\<close>

text \<open>
  A \<^verbatim>\<open>datetime\<close> without \<^verbatim>\<open>tzinfo\<close>. The microsecond field is always 0 here and is left
  out. Python's constructor accepts exactly the field values of \<open>valid_datetime\<close>.
\<close>

record datetime =
  year :: nat
  month :: nat
  day :: nat
  hour :: nat
  minute :: nat
  second :: nat

definition is_leap :: "nat \<Rightarrow> bool" where
  "is_leap y \<longleftrightarrow> y mod 4 = 0 \<and> (y mod 100 \<noteq> 0 \<or> y mod 400 = 0)"

definition days_in_month :: "nat \<Rightarrow> nat \<Rightarrow> nat" where
  "days_in_month y m =
     (if m = 2 then (if is_leap y then 29 else 28)
      else if m \<in> {4, 6, 9, 11} then 30 else 31)"

definition valid_date :: "nat \<Rightarrow> nat \<Rightarrow> nat \<Rightarrow> bool" where
  \<comment> \<open>\<^verbatim>\<open>MINYEAR = 1\<close>, \<^verbatim>\<open>MAXYEAR = 9999\<close>\<close>
  "valid_date y m d \<longleftrightarrow>
     1 \<le> y \<and> y \<le> 9999 \<and> 1 \<le> m \<and> m \<le> 12 \<and> 1 \<le> d \<and> d \<le> days_in_month y m"

definition valid_datetime :: "datetime \<Rightarrow> bool" where
  "valid_datetime t \<longleftrightarrow>
     valid_date (year t) (month t) (day t) \<and> hour t < 24 \<and> minute t < 60 \<and> second t < 60"

definition days_before_year :: "nat \<Rightarrow> nat" where
  "days_before_year y = (y - 1) * 365 + (y - 1) div 4 - (y - 1) div 100 + (y - 1) div 400"

definition days_before_month :: "nat \<Rightarrow> nat \<Rightarrow> nat" where
  "days_before_month y m = sum_list (map (days_in_month y) [1..<m])"

definition toordinal :: "datetime \<Rightarrow> nat" where
  \<comment> \<open>\<^verbatim>\<open>date.toordinal\<close>: 1 for 0001-01-01\<close>
  "toordinal t = days_before_year (year t) + days_before_month (year t) (month t) + day t"


definition to_seconds :: "datetime \<Rightarrow> int" where
  \<comment> \<open>the timestamp on a line of seconds: what \<^verbatim>\<open>datetime\<close> arithmetic computes with\<close>
  "to_seconds t =
     int (toordinal t) * 86400 + int (hour t) * 3600 + int (minute t) * 60 + int (second t)"

subsection \<open>The regular expressions of \<^verbatim>\<open>_strptime\<close>\<close>

text \<open>
  \<^verbatim>\<open>datetime.strptime\<close> turns the format into a regular expression, compiled with
  \<^verbatim>\<open>IGNORECASE\<close>, and matches it at the start of the input. A character class is a
  predicate, a sequence of classes matches as many characters, and a directive is an
  ordered list of alternatives. The locale is the C locale, whose names
  \<^verbatim>\<open>LocaleTime\<close> stores in lower case.
\<close>

type_synonym cclass = "char \<Rightarrow> bool"

definition lit :: "char \<Rightarrow> cclass" where
  \<comment> \<open>a literal character, matched without regard to case\<close>
  "lit c x \<longleftrightarrow> lower x = lower c"

definition rng :: "char \<Rightarrow> char \<Rightarrow> cclass" where
  \<comment> \<open>the class \<^verbatim>\<open>[lo-hi]\<close>\<close>
  "rng lo hi x \<longleftrightarrow> (of_char lo :: nat) \<le> of_char x \<and> (of_char x :: nat) \<le> of_char hi"

definition digit :: cclass where
  \<comment> \<open>\<^verbatim>\<open>\d\<close>: below code point 256 the decimal digits are 0 to 9\<close>
  "digit = rng CHR ''0'' CHR ''9''"

definition day_name :: "string list" where
  "day_name = [''Monday'', ''Tuesday'', ''Wednesday'', ''Thursday'', ''Friday'', ''Saturday'',
     ''Sunday'']"

definition day_abbr :: "string list" where
  "day_abbr = [''Mon'', ''Tue'', ''Wed'', ''Thu'', ''Fri'', ''Sat'', ''Sun'']"

definition month_name :: "string list" where
  "month_name = ['''', ''January'', ''February'', ''March'', ''April'', ''May'', ''June'', ''July'',
     ''August'', ''September'', ''October'', ''November'', ''December'']"

definition month_abbr :: "string list" where
  "month_abbr = ['''', ''Jan'', ''Feb'', ''Mar'', ''Apr'', ''May'', ''Jun'', ''Jul'', ''Aug'', ''Sep'',
     ''Oct'', ''Nov'', ''Dec'']"

definition f_weekday :: "string list" where
  "f_weekday = map (map lower) day_name"

definition a_weekday :: "string list" where
  "a_weekday = map (map lower) day_abbr"

definition f_month :: "string list" where
  "f_month = map (map lower) month_name"

definition a_month :: "string list" where
  "a_month = map (map lower) month_abbr"

definition am_pm :: "string list" where
  "am_pm = [''am'', ''pm'']"

definition seqToRE :: "string list \<Rightarrow> cclass list list" where
  \<comment> \<open>\<^verbatim>\<open>sorted(to_convert, key=len, reverse=True)\<close>, joined with \<^verbatim>\<open>|\<close>\<close>
  "seqToRE to_convert = map (map lit) (rev (sort_key length (rev to_convert)))"

definition regex_of :: "char \<Rightarrow> cclass list list option" where
  \<comment> \<open>the table of \<^verbatim>\<open>TimeRE\<close>, for the nine directives the four formats use; any other
      directive is outside this model and is rejected like an unknown one\<close>
  "regex_of d =
     (if d = CHR ''d'' then
        Some [[lit CHR ''3'', rng CHR ''0'' CHR ''1''], [rng CHR ''1'' CHR ''2'', digit],
              [lit CHR ''0'', rng CHR ''1'' CHR ''9''], [rng CHR ''1'' CHR ''9''],
              [lit CHR '' '', rng CHR ''1'' CHR ''9'']]
      else if d = CHR ''I'' then
        Some [[lit CHR ''1'', rng CHR ''0'' CHR ''2''], [lit CHR ''0'', rng CHR ''1'' CHR ''9''],
              [rng CHR ''1'' CHR ''9'']]
      else if d = CHR ''M'' then Some [[rng CHR ''0'' CHR ''5'', digit], [digit]]
      else if d = CHR ''Y'' then Some [[digit, digit, digit, digit]]
      else if d = CHR ''A'' then Some (seqToRE f_weekday)
      else if d = CHR ''a'' then Some (seqToRE a_weekday)
      else if d = CHR ''B'' then Some (seqToRE (tl f_month))
      else if d = CHR ''b'' then Some (seqToRE (tl a_month))
      else if d = CHR ''p'' then Some (seqToRE am_pm)
      else None)"

datatype item = Literal char | Whitespace | Directive char

text \<open>
  \<^verbatim>\<open>TimeRE.pattern\<close>: a run of whitespace in the format becomes \<^verbatim>\<open>\s+\<close>, \<^verbatim>\<open>%x\<close> becomes
  the expression of directive \<open>x\<close>, every other character stands for itself. \<open>None\<close> is
  the \<^verbatim>\<open>ValueError\<close> for a bad directive or a stray \<^verbatim>\<open>%\<close>.
\<close>

function pattern :: "string \<Rightarrow> item list option" where
  "pattern [] = Some []"
| "pattern (c # cs) =
     (if c = CHR ''%'' then
        (case cs of
           [] \<Rightarrow> None
         | d # ds \<Rightarrow>
             if d = CHR ''%'' then map_option ((#) (Literal CHR ''%'')) (pattern ds)
             else if regex_of d = None then None
             else map_option ((#) (Directive d)) (pattern ds))
      else if isspace c then map_option ((#) Whitespace) (pattern (dropWhile isspace cs))
      else map_option ((#) (Literal c)) (pattern cs))"
  by pat_completeness auto
termination
  by (relation "measure length") (auto simp: less_Suc_eq_le length_dropWhile_le)

fun match_seq :: "cclass list \<Rightarrow> string \<Rightarrow> (string \<times> string) option" where
  "match_seq [] s = Some ([], s)"
| "match_seq (p # ps) [] = None"
| "match_seq (p # ps) (x # xs) =
     (if p x then map_option (\<lambda>(g, r). (x # g, r)) (match_seq ps xs) else None)"

text \<open>
  The ways one item can match at the start of \<open>s\<close>, in the order the backtracking
  matcher tries them: each is the matched text and the rest. \<^verbatim>\<open>\s+\<close> is greedy, so the
  longest run comes first.
\<close>

definition candidates :: "item \<Rightarrow> string \<Rightarrow> (string \<times> string) list" where
  "candidates i s =
     (case i of
        Literal c \<Rightarrow> (case match_seq [lit c] s of None \<Rightarrow> [] | Some m \<Rightarrow> [m])
      | Whitespace \<Rightarrow>
          map (\<lambda>k. (take k s, drop k s)) (rev [1..<Suc (length (takeWhile isspace s))])
      | Directive d \<Rightarrow>
          (case regex_of d of
             None \<Rightarrow> []
           | Some alts \<Rightarrow> List.map_filter (\<lambda>a. match_seq a s) alts))"

fun first_some :: "('a \<Rightarrow> 'b option) \<Rightarrow> 'a list \<Rightarrow> 'b option" where
  "first_some f [] = None"
| "first_some f (x # xs) = (case f x of Some y \<Rightarrow> Some y | None \<Rightarrow> first_some f xs)"

text \<open>
  \<^verbatim>\<open>format_regex.match(data_string)\<close>: the first way, in backtracking order, to match
  all items at the start of the input. The result is the named groups, in order, and
  the unmatched rest of the input.
\<close>

fun re_match :: "item list \<Rightarrow> string \<Rightarrow> ((char \<times> string) list \<times> string) option" where
  "re_match [] s = Some ([], s)"
| "re_match (i # its) s =
     first_some
       (\<lambda>(g, r). map_option
                   (\<lambda>(gs, e). (case i of Directive d \<Rightarrow> (d, g) # gs | _ \<Rightarrow> gs, e))
                   (re_match its r))
       (candidates i s)"

subsection \<open>\<^verbatim>\<open>datetime.strptime\<close>\<close>

definition py_int :: "string \<Rightarrow> nat" where
  \<comment> \<open>\<^verbatim>\<open>int(s)\<close> for a group of digits, which \<^verbatim>\<open>%d\<close> may precede with a space\<close>
  "py_int s = foldl (\<lambda>n c. 10 * n + (of_char c - 48)) 0 (strip s)"

fun index :: "'a list \<Rightarrow> 'a \<Rightarrow> nat option" where
  \<comment> \<open>\<^verbatim>\<open>list.index\<close>; \<open>None\<close> is its \<^verbatim>\<open>ValueError\<close>\<close>
  "index [] x = None"
| "index (y # ys) x = (if y = x then Some 0 else map_option Suc (index ys x))"

record fields =
  f_year :: "nat option"
  f_mon :: nat
  f_day :: nat
  f_hour :: nat
  f_minute :: nat

definition convert :: "(char \<times> string) list \<Rightarrow> char \<times> string \<Rightarrow> fields \<Rightarrow> fields option" where
  \<comment> \<open>one round of the loop over \<^verbatim>\<open>found_dict\<close>; the weekday is looked up, and
      \<^verbatim>\<open>_strptime_datetime\<close> then drops it\<close>
  "convert found kv f =
     (let k = fst kv; v = snd kv in
      if k = CHR ''Y'' then Some (f\<lparr>f_year := Some (py_int v)\<rparr>)
      else if k = CHR ''B'' then map_option (\<lambda>i. f\<lparr>f_mon := i\<rparr>) (index f_month (map lower v))
      else if k = CHR ''b'' then map_option (\<lambda>i. f\<lparr>f_mon := i\<rparr>) (index a_month (map lower v))
      else if k = CHR ''d'' then Some (f\<lparr>f_day := py_int v\<rparr>)
      else if k = CHR ''I'' then
        (let hour = py_int v;
             ampm = map lower (case map_of found CHR ''p'' of None \<Rightarrow> [] | Some p \<Rightarrow> p)
         in Some (f\<lparr>f_hour :=
                    (if ampm = [] \<or> ampm = am_pm ! 0 then (if hour = 12 then 0 else hour)
                     else if ampm = am_pm ! 1 then (if hour \<noteq> 12 then hour + 12 else hour)
                     else hour)\<rparr>))
      else if k = CHR ''M'' then Some (f\<lparr>f_minute := py_int v\<rparr>)
      else if k = CHR ''A'' then map_option (\<lambda>i. f) (index f_weekday (map lower v))
      else if k = CHR ''a'' then map_option (\<lambda>i. f) (index a_weekday (map lower v))
      else Some f)"

fun convert_all :: "(char \<times> string) list \<Rightarrow> (char \<times> string) list \<Rightarrow> fields \<Rightarrow> fields option" where
  "convert_all found [] f = Some f"
| "convert_all found (kv # kvs) f =
     (case convert found kv f of None \<Rightarrow> None | Some f' \<Rightarrow> convert_all found kvs f')"

definition strptime :: "string \<Rightarrow> string \<Rightarrow> datetime option" where
  \<comment> \<open>\<^verbatim>\<open>datetime.strptime(data_string, format)\<close>; \<open>None\<close> is \<^verbatim>\<open>ValueError\<close>, which the
      match, a left-over rest, a group's conversion and the constructor of the date can raise\<close>
  "strptime data_string format =
     (case pattern format of
        None \<Rightarrow> None
      | Some format_regex \<Rightarrow>
          (case re_match format_regex data_string of
             None \<Rightarrow> None
           | Some (found, rest) \<Rightarrow>
               if rest \<noteq> [] then None
               else
                 (case convert_all found found
                         \<lparr>f_year = None, f_mon = 1, f_day = 1, f_hour = 0, f_minute = 0\<rparr> of
                    None \<Rightarrow> None
                  | Some f \<Rightarrow>
                      (let y = (case f_year f of None \<Rightarrow> 1900 | Some y \<Rightarrow> y);
                           t = \<lparr>year = y, month = f_mon f, day = f_day f, hour = f_hour f,
                                minute = f_minute f, second = 0\<rparr>
                       in if valid_datetime t then Some t else None))))"

subsection \<open>Formatting timestamps\<close>

definition digit_char :: "nat \<Rightarrow> char" where
  "digit_char n = char_of (48 + n)"

definition pad2 :: "nat \<Rightarrow> string" where
  \<comment> \<open>\<^verbatim>\<open>%02d\<close> of a number below 100\<close>
  "pad2 n = [digit_char (n div 10 mod 10), digit_char (n mod 10)]"

definition pad4 :: "nat \<Rightarrow> string" where
  \<comment> \<open>\<^verbatim>\<open>%04d\<close> of a number below 10000\<close>
  "pad4 n = [digit_char (n div 1000 mod 10), digit_char (n div 100 mod 10),
             digit_char (n div 10 mod 10), digit_char (n mod 10)]"

definition isoformat :: "datetime \<Rightarrow> string" where
  \<comment> \<open>\<^verbatim>\<open>datetime.isoformat()\<close> of a naive timestamp with microsecond 0\<close>
  "isoformat t =
     pad4 (year t) @ ''-'' @ pad2 (month t) @ ''-'' @ pad2 (day t) @ ''T'' @
     pad2 (hour t) @ '':'' @ pad2 (minute t) @ '':'' @ pad2 (second t)"



definition digits_val :: "string \<Rightarrow> nat option" where
  \<comment> \<open>the number a non-empty string of digits denotes\<close>
  "digits_val s =
     (if s \<noteq> [] \<and> list_all digit s
      then Some (foldl (\<lambda>n c. 10 * n + (of_char c - 48)) 0 s) else None)"

definition fromisoformat :: "string \<Rightarrow> datetime option" where
  \<comment> \<open>\<^verbatim>\<open>datetime.fromisoformat\<close> on the layout \<^verbatim>\<open>YYYY-MM-DDTHH:MM:SS\<close> that \<open>isoformat\<close>
      writes, the only strings \<^verbatim>\<open>main\<close> hands on; \<open>None\<close> is \<^verbatim>\<open>ValueError\<close>\<close>
  "fromisoformat s =
     (if length s = 19 \<and> s ! 4 = CHR ''-'' \<and> s ! 7 = CHR ''-'' \<and> s ! 10 = CHR ''T'' \<and>
         s ! 13 = CHR '':'' \<and> s ! 16 = CHR '':''
      then
        (case (digits_val (take 4 s), digits_val (take 2 (drop 5 s)),
               digits_val (take 2 (drop 8 s)), digits_val (take 2 (drop 11 s)),
               digits_val (take 2 (drop 14 s)), digits_val (take 2 (drop 17 s))) of
           (Some y, Some m, Some d, Some h, Some mi, Some se) \<Rightarrow>
             (let t = \<lparr>year = y, month = m, day = d, hour = h, minute = mi, second = se\<rparr>
              in if valid_datetime t then Some t else None)
         | _ \<Rightarrow> None)
      else None)"

subsection \<open>\<^verbatim>\<open>parse_event_time\<close>\<close>

definition formats :: "string list" where
  "formats = [''%A, %B %d, %Y %I:%M %p'', ''%A, %b %d, %Y %I:%M %p'',
              ''%a, %B %d, %Y %I:%M %p'', ''%a, %b %d, %Y %I:%M %p'']"

fun try_formats :: "string \<Rightarrow> string list \<Rightarrow> datetime option" where
  \<comment> \<open>the loop \<^verbatim>\<open>for fmt in formats: try: return strptime(...) except ValueError: continue\<close>\<close>
  "try_formats event_time_str [] = None"
| "try_formats event_time_str (fmt # fmts) =
     (case strptime event_time_str fmt of
        Some t \<Rightarrow> Some t
      | None \<Rightarrow> try_formats event_time_str fmts)"

definition parse_event_time :: "string \<Rightarrow> datetime option" where
  \<comment> \<open>\<open>None\<close> is the return of \<^verbatim>\<open>None\<close> after the message
      \<^verbatim>\<open>Error: Unable to parse time data\<close>\<close>
  "parse_event_time event_time_str = try_formats event_time_str formats"

subsection \<open>\<^verbatim>\<open>extract_event_details\<close>\<close>

text \<open>
  A message is the list of its headers, \<^verbatim>\<open>msg['payload']['headers']\<close>, each a name and
  a value. Every failure returns \<^verbatim>\<open>None\<close>; the error names the message printed:
  \<open>SubjectMissing\<close> for \<^verbatim>\<open>Unable to find subject line\<close>, \<open>MarkerMissing\<close> for
  \<^verbatim>\<open>does not contain the expected 'Registration Confirmation: ' format\<close>,
  \<open>SeparatorMismatch\<close> for \<^verbatim>\<open>does not contain expected 'on' separator\<close> and
  \<open>ParseFailure\<close> for the one of \<open>parse_event_time\<close>.
\<close>

type_synonym message = "(string \<times> string) list"

datatype extract_error = SubjectMissing | MarkerMissing | SeparatorMismatch | ParseFailure

definition FormatMismatch :: "extract_error set" where
  "FormatMismatch = {MarkerMissing, SeparatorMismatch}"

record event_details =
  event_name :: string
  event_time :: string

fun find_subject :: "message \<Rightarrow> string option" where
  \<comment> \<open>the loop over the headers, which stops at the first one named \<^verbatim>\<open>Subject\<close>\<close>
  "find_subject [] = None"
| "find_subject (header # headers) =
     (if fst header = ''Subject'' then Some (snd header) else find_subject headers)"

definition marker :: string where
  "marker = ''Registration Confirmation: ''"

definition separator :: string where
  "separator = '' on ''"

definition extract_subject :: "string \<Rightarrow> extract_error + event_details" where
  \<comment> \<open>the body of the \<^verbatim>\<open>try\<close> block, on a non-empty subject line\<close>
  "extract_subject subject_line =
     (let split_subject = split_py marker subject_line in
      if length split_subject > 1 then
        (let event_details = split_py separator (split_subject ! 1) in
         if length event_details \<noteq> 2 then Inl SeparatorMismatch
         else
           (let gcal_event_name = strip (event_details ! 0);
                gcal_event_time = strip (event_details ! 1)
            in case parse_event_time gcal_event_time of
                 None \<Rightarrow> Inl ParseFailure
               | Some event_time_obj \<Rightarrow>
                   Inr \<lparr>event_name = gcal_event_name,
                        event_time = isoformat event_time_obj\<rparr>))
      else Inl MarkerMissing)"

definition extract_event_details :: "message \<Rightarrow> extract_error + event_details" where
  "extract_event_details msg =
     (case find_subject msg of
        None \<Rightarrow> Inl SubjectMissing
      | Some subject_line \<Rightarrow>
          if subject_line = [] then Inl SubjectMissing else extract_subject subject_line)"

subsection \<open>Timestamps with a timezone\<close>

text \<open>
  A \<^verbatim>\<open>datetime\<close> with \<^verbatim>\<open>tzinfo\<close> is its wall-clock reading, in seconds on the line of
  \<open>to_seconds\<close>, and its offset from UTC in seconds. Where the program passes the
  \<^verbatim>\<open>isoformat()\<close> string of such a timestamp to the calendar service, the model passes the
  timestamp.

  The two timezones are parameters: \<open>local_utcoffset\<close> gives the offset of the
  runtime's local zone at a local wall-clock reading, \<open>chicago_utcoffset\<close> the offset of
  \<^verbatim>\<open>America/Chicago\<close> at a UTC reading.
\<close>

record aware_datetime =
  wall_seconds :: int
  utcoffset :: int

record tz_env =
  local_utcoffset :: "int \<Rightarrow> int"
  chicago_utcoffset :: "int \<Rightarrow> int"

datatype exn = HttpError | OverflowError | ValueError | OtherException

definition min_seconds :: int where
  \<comment> \<open>0001-01-01T00:00:00\<close>
  "min_seconds = 86400"

definition max_seconds :: int where
  \<comment> \<open>9999-12-31T23:59:59\<close>
  "max_seconds = 3652060 * 86400 - 1"

definition representable :: "int \<Rightarrow> bool" where
  "representable x \<longleftrightarrow> min_seconds \<le> x \<and> x \<le> max_seconds"

definition astimezone :: "tz_env \<Rightarrow> datetime \<Rightarrow> exn + aware_datetime" where
  \<comment> \<open>\<^verbatim>\<open>t.astimezone(chicago_tz)\<close> for a naive \<open>t\<close>, which Python presumes to be in the
      system's local timezone: to UTC with the local offset, then to Chicago's wall clock\<close>
  "astimezone env t =
     (let utc = to_seconds t - local_utcoffset env (to_seconds t);
          off = chicago_utcoffset env utc
      in if representable utc \<and> representable (utc + off)
         then Inr \<lparr>wall_seconds = utc + off, utcoffset = off\<rparr>
         else Inl OverflowError)"

definition plus_hours :: "aware_datetime \<Rightarrow> int \<Rightarrow> exn + aware_datetime" where
  \<comment> \<open>\<^verbatim>\<open>t + timedelta(hours=n)\<close>: wall-clock arithmetic that keeps \<^verbatim>\<open>tzinfo\<close>\<close>
  "plus_hours t n =
     (if representable (wall_seconds t + n * 3600)
      then Inr (t\<lparr>wall_seconds := wall_seconds t + n * 3600\<rparr>)
      else Inl OverflowError)"

subsection \<open>The mail and calendar services\<close>

text \<open>
  The two services are parameters. A call returns a value or raises; the calendar has a
  state \<open>'c\<close> that an insert may change, and answers with event resources \<open>'e\<close>. The
  world is the calendar's state and the trace of the calendar calls made so far.
\<close>

record list_request =
  timeMin :: aware_datetime
  timeMax :: aware_datetime
  q :: string

record event_body =
  summary :: string
  start_dateTime :: aware_datetime
  start_timeZone :: string
  end_dateTime :: aware_datetime
  end_timeZone :: string
  attendees :: "string list"

datatype call = EventsList list_request | EventsInsert event_body bool

record ('c, 'e) calendar_service =
  events_list :: "'c \<Rightarrow> list_request \<Rightarrow> exn + 'e list"
  events_insert :: "'c \<Rightarrow> event_body \<Rightarrow> (exn + 'e) \<times> 'c"

record gmail_service =
  messages_list :: "string \<Rightarrow> int \<Rightarrow> exn + string list"
  messages_get :: "string \<Rightarrow> exn + message"

record 'c world =
  calendar :: 'c
  calls :: "call list"

definition get_confirmation_emails :: "gmail_service \<Rightarrow> string \<Rightarrow> int \<Rightarrow> exn + string list" where
  \<comment> \<open>an \<^verbatim>\<open>HttpError\<close> is caught and gives the empty list\<close>
  "get_confirmation_emails gmail query max_messages =
     (case messages_list gmail query max_messages of
        Inl e \<Rightarrow> if e = HttpError then Inr [] else Inl e
      | Inr messages \<Rightarrow> Inr messages)"

definition check_existing_event ::
  "('c, 'e) calendar_service \<Rightarrow> string \<Rightarrow> aware_datetime \<Rightarrow> aware_datetime \<Rightarrow> 'c world \<Rightarrow>
     (exn + 'e list) \<times> 'c world" where
  "check_existing_event cal name start_time end_time w =
     (let request = \<lparr>timeMin = start_time, timeMax = end_time, q = name\<rparr>
      in (events_list cal (calendar w) request, w\<lparr>calls := calls w @ [EventsList request]\<rparr>))"

definition create_calendar_event ::
  "('c, 'e) calendar_service \<Rightarrow> tz_env \<Rightarrow> event_details \<Rightarrow> string \<Rightarrow> string \<Rightarrow> 'c world \<Rightarrow>
     (exn + 'e option) \<times> 'c world" where
  \<comment> \<open>\<open>Inr None\<close> is the return of \<^verbatim>\<open>None\<close>, \<open>Inr (Some event)\<close> the created event, \<open>Inl\<close>
      an exception that leaves the function\<close>
  "create_calendar_event cal env details email1 email2 w =
     (case fromisoformat (event_time details) of
        None \<Rightarrow> (Inl ValueError, w)
      | Some t \<Rightarrow>
          (case astimezone env t of
             Inl e \<Rightarrow> (Inl e, w)
           | Inr start_time_obj \<Rightarrow>
               (case plus_hours start_time_obj 1 of
                  Inl e \<Rightarrow> (Inl e, w)
                | Inr end_time_obj \<Rightarrow>
                    (case check_existing_event cal (event_name details)
                            start_time_obj end_time_obj w of
                       (Inl e, w') \<Rightarrow> (Inl e, w')
                     | (Inr existing_events, w') \<Rightarrow>
                         if existing_events \<noteq> [] then (Inr None, w')
                         else
                           (let event = \<lparr>summary = event_name details,
                                          start_dateTime = start_time_obj,
                                          start_timeZone = ''America/Chicago'',
                                          end_dateTime = end_time_obj,
                                          end_timeZone = ''America/Chicago'',
                                          attendees = [email1, email2]\<rparr>
                            in case events_insert cal (calendar w') event of
                                 (Inl e, c) \<Rightarrow>
                                   (if e = HttpError then Inr None else Inl e,
                                    \<lparr>calendar = c, calls = calls w' @ [EventsInsert event False]\<rparr>)
                               | (Inr created, c) \<Rightarrow>
                                   (Inr (Some created),
                                    \<lparr>calendar = c,
                                     calls = calls w' @ [EventsInsert event True]\<rparr>))))))"

subsection \<open>\<^verbatim>\<open>main\<close>\<close>

text \<open>
  What \<^verbatim>\<open>main\<close> prints itself: \<^verbatim>\<open>No messages found. Exiting program.\<close>,
  \<^verbatim>\<open>An error occurred while processing a message\<close>,
  \<^verbatim>\<open>Process completed. n events were created.\<close> and \<^verbatim>\<open>An unexpected error occurred\<close>.
\<close>

datatype printed = NoMessagesExit | MessageError | ProcessCompleted nat | UnexpectedError

fun process_messages ::
  "gmail_service \<Rightarrow> ('c, 'e) calendar_service \<Rightarrow> tz_env \<Rightarrow> string \<Rightarrow> string \<Rightarrow> string list \<Rightarrow>
     nat \<Rightarrow> printed list \<Rightarrow> 'c world \<Rightarrow> (exn + nat) \<times> printed list \<times> 'c world" where
  \<comment> \<open>the loop over the messages; \<open>events_created\<close> is its counter. The inner
      \<^verbatim>\<open>except HttpError\<close> ends the round, any other exception leaves the loop\<close>
  "process_messages gmail cal env email1 email2 [] events_created out w =
     (Inr events_created, out, w)"
| "process_messages gmail cal env email1 email2 (message # messages) events_created out w =
     (case messages_get gmail message of
        Inl e \<Rightarrow>
          if e = HttpError
          then process_messages gmail cal env email1 email2 messages events_created
                 (out @ [MessageError]) w
          else (Inl e, out, w)
      | Inr msg \<Rightarrow>
          (case extract_event_details msg of
             Inl err \<Rightarrow>
               process_messages gmail cal env email1 email2 messages events_created out w
           | Inr details \<Rightarrow>
               (case create_calendar_event cal env details email1 email2 w of
                  (Inl e, w') \<Rightarrow>
                    if e = HttpError
                    then process_messages gmail cal env email1 email2 messages events_created
                           (out @ [MessageError]) w'
                    else (Inl e, out, w')
                | (Inr None, w') \<Rightarrow>
                    process_messages gmail cal env email1 email2 messages events_created out w'
                | (Inr (Some event), w') \<Rightarrow>
                    process_messages gmail cal env email1 email2 messages
                      (events_created + 1) out w')))"

definition main ::
  "gmail_service \<Rightarrow> ('c, 'e) calendar_service \<Rightarrow> tz_env \<Rightarrow> string \<Rightarrow> string \<Rightarrow> string \<Rightarrow> int \<Rightarrow>
     'c world \<Rightarrow> printed list \<times> 'c world" where
  \<comment> \<open>\<^verbatim>\<open>main\<close> after authentication: the two services are given\<close>
  "main gmail cal env email1 email2 query max_messages w =
     (case get_confirmation_emails gmail query max_messages of
        Inl e \<Rightarrow> ([UnexpectedError], w)
      | Inr messages \<Rightarrow>
          if messages = [] then ([NoMessagesExit], w)
          else
            (case process_messages gmail cal env email1 email2 messages 0 [] w of
               (Inl e, out, w') \<Rightarrow> (out @ [UnexpectedError], w')
             | (Inr events_created, out, w') \<Rightarrow>
                 (out @ [ProcessCompleted events_created], w')))"

fun created :: "call \<Rightarrow> bool" where
  \<comment> \<open>a call that created an event: an insert that returned one\<close>
  "created (EventsInsert event ok) = ok"
| "created (EventsList request) = False"

subsection \<open>Sample services for concrete runs\<close>

text \<open>
  A mailbox that holds a list of messages by identifier, a calendar that keeps the
  inserted events in a list and answers a query with the events of that name that start
  in the window, and a pair of timezones with constant offsets.
\<close>

definition mailbox :: "(string \<times> message) list \<Rightarrow> gmail_service" where
  "mailbox box =
     \<lparr>messages_list = (\<lambda>query max_messages. Inr (take (nat max_messages) (map fst box))),
      messages_get = (\<lambda>i. case map_of box i of None \<Rightarrow> Inl HttpError | Some msg \<Rightarrow> Inr msg)\<rparr>"

definition memory_calendar :: "(event_body list, event_body) calendar_service" where
  "memory_calendar =
     \<lparr>events_list = (\<lambda>c request. Inr (filter (\<lambda>e. summary e = q request \<and>
          wall_seconds (timeMin request) \<le> wall_seconds (start_dateTime e) \<and>
          wall_seconds (start_dateTime e) < wall_seconds (timeMax request)) c)),
      events_insert = (\<lambda>c event. (Inr event, c @ [event]))\<rparr>"

definition fixed_zones :: "int \<Rightarrow> int \<Rightarrow> tz_env" where
  "fixed_zones local chicago = \<lparr>local_utcoffset = (\<lambda>x. local), chicago_utcoffset = (\<lambda>x. chicago)\<rparr>"

definition sample_subject :: string where
  "sample_subject =
     ''Registration Confirmation: Beginners (White/Orng/Yellow) on Saturday, January 11, 2025 9:00 AM''"

definition sample_time :: datetime where
  "sample_time = \<lparr>year = 2025, month = 1, day = 11, hour = 9, minute = 0, second = 0\<rparr>"

definition fresh :: "event_body list world" where
  "fresh = \<lparr>calendar = [], calls = []\<rparr>"

definition sample_details :: event_details where
  "sample_details =
     \<lparr>event_name = ''Beginners (White/Orng/Yellow)'', event_time = ''2025-01-11T09:00:00''\<rparr>"

definition sample_start :: aware_datetime where
  "sample_start = \<lparr>wall_seconds = 63872269200, utcoffset = - 21600\<rparr>"

definition sample_end :: aware_datetime where
  "sample_end = \<lparr>wall_seconds = 63872272800, utcoffset = - 21600\<rparr>"

definition sample_request :: list_request where
  "sample_request =
     \<lparr>timeMin = sample_start, timeMax = sample_end, q = ''Beginners (White/Orng/Yellow)''\<rparr>"

definition sample_event :: event_body where
  "sample_event =
     \<lparr>summary = ''Beginners (White/Orng/Yellow)'',
      start_dateTime = sample_start, start_timeZone = ''America/Chicago'',
      end_dateTime = sample_end, end_timeZone = ''America/Chicago'',
      attendees = [''first@example.org'', ''second@example.org'']\<rparr>"

definition central :: tz_env where
  \<comment> \<open>a runtime in Chicago's own zone, in winter\<close>
  "central = fixed_zones (- 21600) (- 21600)"

definition two_marker_subject :: string where
  "two_marker_subject =
     ''Registration Confirmation: A on Saturday, January 11, 2025 9:00 AM Registration Confirmation: B''"

definition two_event_subject :: string where
  "two_event_subject =
     ''Registration Confirmation: A on Saturday, January 11, 2025 9:00 AM Registration Confirmation: B on C''"

definition skate_subject :: string where
  "skate_subject =
     ''Registration Confirmation: Skate on Ice on Saturday, January 11, 2025 9:00 AM''"

definition advanced_subject :: string where
  "advanced_subject = ''Registration Confirmation: Advanced Class''"

definition booked :: "event_body list world" where
  \<comment> \<open>a calendar that already holds the sample event\<close>
  "booked = \<lparr>calendar = [sample_event], calls = []\<rparr>"

definition sample_mailbox :: gmail_service where
  "sample_mailbox =
     mailbox [(''m1'', [(''Subject'', advanced_subject)]), (''m2'', [(''Subject'', sample_subject)])]"

definition broken_mailbox :: gmail_service where
  \<comment> \<open>a mail service whose fetch of the first of two messages raises an exception that is
      not an \<^verbatim>\<open>HttpError\<close>, a network timeout for one\<close>
  "broken_mailbox =
     \<lparr>messages_list = (\<lambda>query max_messages. Inr [''m0'', ''m2'']),
      messages_get = (\<lambda>i. if i = ''m0'' then Inl OtherException
                            else Inr [(''Subject'', sample_subject)])\<rparr>"

section \<open>Facts about the library functions\<close>

subsection \<open>Digits\<close>

lemma of_char_digit_char: "n < 10 \<Longrightarrow> (of_char (digit_char n) :: nat) = 48 + n"
  by (simp add: digit_char_def)

lemma digit_digit_char: "n < 10 \<Longrightarrow> digit (digit_char n)"
  by (simp add: digit_def rng_def of_char_digit_char)

lemma digits_val_pad2: "n < 100 \<Longrightarrow> digits_val (pad2 n) = Some n"
proof -
  assume n: "n < 100"
  then have a: "n div 10 mod 10 < 10" and b: "n mod 10 < 10" by simp_all
  have "n div 10 mod 10 = n div 10" using n by simp
  then have "10 * (n div 10 mod 10) + n mod 10 = n" by simp
  with a b show ?thesis
    by (simp add: digits_val_def pad2_def digit_digit_char of_char_digit_char)
qed

lemma digits_val_pad4: "n < 10000 \<Longrightarrow> digits_val (pad4 n) = Some n"
proof -
  assume n: "n < 10000"
  have d: "n div 1000 mod 10 < 10" "n div 100 mod 10 < 10" "n div 10 mod 10 < 10" "n mod 10 < 10"
    by simp_all
  define a where "a = n div 1000"
  define b where "b = n div 100 mod 10"
  define c where "c = n div 10 mod 10"
  define h where "h = n div 100"
  define k where "k = n div 10"
  have e1: "n div 1000 mod 10 = a" using n by (simp add: a_def)
  have e2: "h = 10 * a + b"
    using div_mult_mod_eq [of "n div 100" 10]
    by (simp add: div_mult2_eq [symmetric] a_def b_def h_def)
  have e3: "k = 10 * h + c"
    using div_mult_mod_eq [of "n div 10" 10]
    by (simp add: div_mult2_eq [symmetric] c_def h_def k_def)
  have e4: "n = 10 * k + n mod 10" by (simp add: k_def)
  have "1000 * a + 100 * b + 10 * c + n mod 10 = n"
    using e2 e3 e4 by simp
  then have key: "1000 * (n div 1000) + 100 * (n div 100 mod 10) + 10 * (n div 10 mod 10) + n mod 10 = n"
    by (simp add: a_def b_def c_def)
  have e0: "n div 1000 mod 10 = n div 1000" using n by simp
  from d show ?thesis
    by (simp add: digits_val_def pad4_def digit_digit_char of_char_digit_char e0 key)
qed

lemma days_in_month_le: "days_in_month y m \<le> 31"
  by (simp add: days_in_month_def)

lemma fromisoformat_isoformat:
  assumes "valid_datetime t"
  shows "fromisoformat (isoformat t) = Some t"
proof -
  from assms have y: "year t < 10000" and m: "month t < 100" and h: "hour t < 100"
    and mi: "minute t < 100" and s: "second t < 100"
    by (simp_all add: valid_datetime_def valid_date_def)
  from assms have "day t \<le> days_in_month (year t) (month t)"
    by (simp add: valid_datetime_def valid_date_def)
  with days_in_month_le [of "year t" "month t"] have d: "day t < 100" by simp
  have shape: "isoformat t =
      pad4 (year t) @ CHR ''-'' # pad2 (month t) @ CHR ''-'' # pad2 (day t) @ CHR ''T'' #
      pad2 (hour t) @ CHR '':'' # pad2 (minute t) @ CHR '':'' # pad2 (second t)"
    by (simp add: isoformat_def)
  have l4: "length (pad4 (year t)) = 4" by (simp add: pad4_def)
  have l2: "\<And>n. length (pad2 n) = 2" by (simp add: pad2_def)
  have len: "length (isoformat t) = 19" by (simp add: shape l4 l2)
  have seps: "isoformat t ! 4 = CHR ''-''" "isoformat t ! 7 = CHR ''-''"
    "isoformat t ! 10 = CHR ''T''" "isoformat t ! 13 = CHR '':''" "isoformat t ! 16 = CHR '':''"
    by (simp_all add: shape pad4_def pad2_def)
  have parts: "take 4 (isoformat t) = pad4 (year t)"
    "take 2 (drop 5 (isoformat t)) = pad2 (month t)"
    "take 2 (drop 8 (isoformat t)) = pad2 (day t)"
    "take 2 (drop 11 (isoformat t)) = pad2 (hour t)"
    "take 2 (drop 14 (isoformat t)) = pad2 (minute t)"
    "take 2 (drop 17 (isoformat t)) = pad2 (second t)"
    by (simp_all add: shape pad4_def pad2_def)
  have eq: "\<lparr>year = year t, month = month t, day = day t, hour = hour t, minute = minute t,
      second = second t\<rparr> = t"
    by simp
  from assms show ?thesis
    unfolding fromisoformat_def
    by (simp add: Let_def eq len seps parts digits_val_pad2 digits_val_pad4 y m d h mi s)
qed

subsection \<open>Splitting\<close>

lemma find_sep_None: "sep \<noteq> [] \<Longrightarrow> find_sep sep s = None \<longleftrightarrow> \<not> sublist sep s"
  by (induction s) (auto simp: sublist_Cons_right)

lemma prefix_before_sep:
  assumes "prefix sep (c # a @ sep @ b)" and "sep \<noteq> []"
  shows "prefix sep (c # a @ butlast sep)"
proof -
  have "c # a @ sep @ b = (c # a @ butlast sep) @ (last sep # b)"
    using assms(2) by simp
  then have "prefix (c # a @ butlast sep) (c # a @ sep @ b)"
    unfolding prefix_def by blast
  moreover have "length sep \<le> length (c # a @ butlast sep)" by simp
  ultimately show ?thesis using assms(1) prefix_length_prefix by blast
qed

lemma find_sep_first:
  "sep \<noteq> [] \<Longrightarrow> \<not> sublist sep (a @ butlast sep) \<Longrightarrow> find_sep sep (a @ sep @ b) = Some (a, b)"
proof (induction a)
  case Nil
  from Nil(1) obtain x xs where sep: "sep = x # xs" by (cases sep) auto
  show ?case unfolding sep by simp
next
  case (Cons c a)
  from Cons.prems have np: "\<not> prefix sep (c # a @ butlast sep)"
    and ns: "\<not> sublist sep (a @ butlast sep)"
    by (simp_all add: sublist_Cons_right)
  have "\<not> prefix sep (c # a @ sep @ b)"
  proof
    assume "prefix sep (c # a @ sep @ b)"
    from prefix_before_sep [OF this Cons.prems(1)] np show False by contradiction
  qed
  with Cons.IH [OF Cons.prems(1) ns] show ?case by simp
qed

lemma find_sep_SomeD:
  "find_sep sep s = Some (a, b) \<Longrightarrow> sep \<noteq> [] \<Longrightarrow> s = a @ sep @ b \<and> \<not> sublist sep (a @ butlast sep)"
proof (induction s arbitrary: a)
  case Nil
  then show ?case by simp
next
  case (Cons c cs)
  show ?case
  proof (cases "prefix sep (c # cs)")
    case True
    with Cons.prems have a: "a = []" and b: "b = drop (length sep) (c # cs)" by simp_all
    from True have "c # cs = sep @ b" unfolding b by (auto simp: prefix_def)
    moreover have "\<not> sublist sep (butlast sep)"
      using Cons.prems(2) sublist_length_le [of sep "butlast sep"] by (cases sep) auto
    ultimately show ?thesis using a by simp
  next
    case False
    with Cons.prems obtain a' where a: "a = c # a'" and f: "find_sep sep cs = Some (a', b)"
      by auto
    from Cons.IH [OF f Cons.prems(2)] have cs: "cs = a' @ sep @ b"
      and ns: "\<not> sublist sep (a' @ butlast sep)" by simp_all
    have "\<not> prefix sep (c # a' @ butlast sep)"
    proof
      assume p: "prefix sep (c # a' @ butlast sep)"
      have "c # a' @ sep @ b = (c # a' @ butlast sep) @ (last sep # b)"
        using Cons.prems(2) by simp
      then have "prefix (c # a' @ butlast sep) (c # a' @ sep @ b)"
        unfolding prefix_def by blast
      with p have "prefix sep (c # a' @ sep @ b)" by (rule prefix_order.trans)
      with False cs show False by simp
    qed
    with ns cs a show ?thesis by (simp add: sublist_Cons_right)
  qed
qed

lemma split_py_none: "\<not> sublist sep s \<Longrightarrow> split_py sep s = [s]"
proof (cases "sep = []")
  case True
  then show ?thesis by (simp add: split_py.simps [of "[]" s])
next
  case False
  assume "\<not> sublist sep s"
  with False have "find_sep sep s = None" by (simp add: find_sep_None)
  then show ?thesis by (simp add: split_py.simps [of sep s])
qed

lemma split_py_first:
  "sep \<noteq> [] \<Longrightarrow> \<not> sublist sep (a @ butlast sep) \<Longrightarrow> split_py sep (a @ sep @ b) = a # split_py sep b"
  by (simp add: split_py.simps [of sep "a @ sep @ b"] find_sep_first)

lemma split_py_found:
  "sep \<noteq> [] \<Longrightarrow> find_sep sep s = Some (a, b) \<Longrightarrow> split_py sep s = a # split_py sep b"
  by (simp add: split_py.simps [of sep s])

lemma hd_split_py:
  "sep \<noteq> [] \<Longrightarrow> split_py sep s ! 0 = (case find_sep sep s of None \<Rightarrow> s | Some (a, b) \<Rightarrow> a)"
  by (simp add: split_py.simps [of sep s] split: option.splits)

lemma length_split_py: "sep \<noteq> [] \<Longrightarrow> length (split_py sep s) = Suc (count_py sep s)"
proof (induction sep s rule: split_py.induct)
  case (1 sep s)
  show ?case
  proof (cases "find_sep sep s")
    case None
    with "1.prems" show ?thesis
      by (simp add: split_py.simps [of sep s] count_py.simps [of sep s])
  next
    case (Some ab)
    obtain a b where ab: "ab = (a, b)" by (cases ab)
    from Some have f: "find_sep sep s = Some (a, b)" unfolding ab .
    have "length (split_py sep b) = Suc (count_py sep b)"
      by (rule "1.IH" [OF "1.prems" f refl "1.prems"])
    with f "1.prems" show ?thesis
      by (simp add: split_py.simps [of sep s] count_py.simps [of sep s])
  qed
qed

lemma marker_nonempty: "marker \<noteq> []"
  by (simp add: marker_def)

lemma separator_nonempty: "separator \<noteq> []"
  by (simp add: separator_def)

declare find_sep.simps [simp del]

subsection \<open>The loop over the formats\<close>

lemma try_formats_Some:
  "try_formats s fs = Some t \<longleftrightarrow>
     (\<exists>i<length fs. strptime s (fs ! i) = Some t \<and> (\<forall>j<i. strptime s (fs ! j) = None))"
proof (induction fs)
  case Nil
  then show ?case by simp
next
  case (Cons f fs)
  show ?case
  proof (cases "strptime s f")
    case None
    have "(\<exists>i<length (f # fs). strptime s ((f # fs) ! i) = Some t \<and>
             (\<forall>j<i. strptime s ((f # fs) ! j) = None)) \<longleftrightarrow>
          (\<exists>i<length fs. strptime s (fs ! i) = Some t \<and> (\<forall>j<i. strptime s (fs ! j) = None))"
      (is "?L \<longleftrightarrow> ?R")
    proof
      assume ?L
      then obtain i where i: "i < length (f # fs)" "strptime s ((f # fs) ! i) = Some t"
        "\<forall>j<i. strptime s ((f # fs) ! j) = None" by blast
      from i(2) None obtain k where k: "i = Suc k" by (cases i) auto
      with i have "k < length fs" "strptime s (fs ! k) = Some t" by simp_all
      moreover have "\<forall>j<k. strptime s (fs ! j) = None"
      proof (intro allI impI)
        fix j assume "j < k"
        then have "Suc j < i" using k by simp
        with i(3) have "strptime s ((f # fs) ! Suc j) = None" by blast
        then show "strptime s (fs ! j) = None" by simp
      qed
      ultimately show ?R by blast
    next
      assume ?R
      then obtain k where k: "k < length fs" "strptime s (fs ! k) = Some t"
        "\<forall>j<k. strptime s (fs ! j) = None" by blast
      have "\<forall>j<Suc k. strptime s ((f # fs) ! j) = None"
      proof (intro allI impI)
        fix j assume "j < Suc k"
        then show "strptime s ((f # fs) ! j) = None" using None k(3) by (cases j) auto
      qed
      with k(1,2) show ?L by (intro exI [of _ "Suc k"]) simp
    qed
    with None Cons.IH show ?thesis by simp
  next
    case (Some u)
    have "(\<exists>i<length (f # fs). strptime s ((f # fs) ! i) = Some t \<and>
             (\<forall>j<i. strptime s ((f # fs) ! j) = None)) \<longleftrightarrow> u = t"
    proof
      assume "\<exists>i<length (f # fs). strptime s ((f # fs) ! i) = Some t \<and>
             (\<forall>j<i. strptime s ((f # fs) ! j) = None)"
      then obtain i where i: "strptime s ((f # fs) ! i) = Some t"
        "\<forall>j<i. strptime s ((f # fs) ! j) = None" by blast
      have "i = 0"
      proof (rule ccontr)
        assume "i \<noteq> 0"
        with i(2) have "strptime s ((f # fs) ! 0) = None" by blast
        with Some show False by simp
      qed
      with i(1) Some show "u = t" by simp
    next
      assume "u = t"
      with Some show "\<exists>i<length (f # fs). strptime s ((f # fs) ! i) = Some t \<and>
             (\<forall>j<i. strptime s ((f # fs) ! j) = None)"
        by (intro exI [of _ 0]) simp
    qed
    with Some show ?thesis by simp
  qed
qed

lemma try_formats_None: "try_formats s fs = None \<longleftrightarrow> (\<forall>f \<in> set fs. strptime s f = None)"
  by (induction fs) (auto split: option.splits)

subsection \<open>Evaluating the samples\<close>

lemma strptime_valid: "strptime s fmt = Some t \<Longrightarrow> valid_datetime t"
  by (auto simp: strptime_def Let_def split: option.splits if_splits prod.splits)

lemma try_formats_valid: "try_formats s fs = Some t \<Longrightarrow> valid_datetime t"
  by (induction fs) (auto split: option.splits dest: strptime_valid)

lemma parse_event_time_valid: "parse_event_time s = Some t \<Longrightarrow> valid_datetime t"
  unfolding parse_event_time_def by (rule try_formats_valid)

lemma valid_sample_time: "valid_datetime sample_time"
  by (simp add: sample_time_def valid_datetime_def valid_date_def days_in_month_def)

lemma digit_chars:
  "digit_char 0 = CHR ''0''" "digit_char 1 = CHR ''1''" "digit_char 2 = CHR ''2''"
  "digit_char 3 = CHR ''3''" "digit_char 4 = CHR ''4''" "digit_char 5 = CHR ''5''"
  "digit_char 6 = CHR ''6''" "digit_char 7 = CHR ''7''" "digit_char 8 = CHR ''8''"
  "digit_char 9 = CHR ''9''" "digit_char (Suc 0) = CHR ''1''"
  by (simp_all add: digit_char_def char_of_def bit_0)

lemma isoformat_sample_time: "isoformat sample_time = ''2025-01-11T09:00:00''"
  by (simp add: sample_time_def isoformat_def pad2_def pad4_def digit_chars)

lemma fromisoformat_sample: "fromisoformat ''2025-01-11T09:00:00'' = Some sample_time"
  using fromisoformat_isoformat [OF valid_sample_time] by (simp add: isoformat_sample_time)

lemma to_seconds_sample_time: "to_seconds sample_time = 63872269200"
  by (simp add: sample_time_def to_seconds_def toordinal_def days_before_year_def
      days_before_month_def days_in_month_def is_leap_def)

lemma astimezone_central: "astimezone central sample_time = Inr sample_start"
  by (simp add: astimezone_def central_def fixed_zones_def to_seconds_sample_time Let_def
      representable_def min_seconds_def max_seconds_def sample_start_def)

lemma plus_hours_sample: "plus_hours sample_start 1 = Inr sample_end"
  by (simp add: plus_hours_def sample_start_def sample_end_def representable_def
      min_seconds_def max_seconds_def)

lemma create_sample_fresh:
  "create_calendar_event memory_calendar central sample_details
     ''first@example.org'' ''second@example.org'' fresh =
   (Inr (Some sample_event),
    \<lparr>calendar = [sample_event],
     calls = [EventsList sample_request, EventsInsert sample_event True]\<rparr>)"
proof -
  have 1: "fromisoformat (event_time sample_details) = Some sample_time"
    by (simp add: sample_details_def fromisoformat_sample)
  have 2: "event_name sample_details = ''Beginners (White/Orng/Yellow)''"
    by (simp add: sample_details_def)
  show ?thesis
    unfolding create_calendar_event_def 1 2
    by (simp add: astimezone_central plus_hours_sample check_existing_event_def Let_def
        memory_calendar_def fresh_def sample_request_def sample_event_def)
qed

section \<open>TimeParser\<close>

lemma strptime_abbreviated_month_first:
  "strptime ''Saturday, Jan 11, 2025 9:00 AM'' ''%A, %B %d, %Y %I:%M %p'' = None"
  by code_simp

lemma strptime_abbreviated_month_second:
  "strptime ''Saturday, Jan 11, 2025 9:00 AM'' ''%A, %b %d, %Y %I:%M %p'' = Some sample_time"
  unfolding sample_time_def by code_simp

lemma strptime_sample_first:
  "strptime ''Saturday, January 11, 2025 9:00 AM'' ''%A, %B %d, %Y %I:%M %p'' = Some sample_time"
  unfolding sample_time_def by code_simp

lemma parse_event_time_sample:
  "parse_event_time ''Saturday, January 11, 2025 9:00 AM'' = Some sample_time"
  by (simp add: parse_event_time_def formats_def strptime_sample_first)

text \<open>
  C3. \<open>parse_event_time\<close> tries four formats, the full or abbreviated day of the week
  with the full or abbreviated month name, each with a 12-hour clock and an AM/PM marker,
  in a fixed order: it returns the parse of the first format that succeeds, so its
  result is \<open>t\<close> exactly when some format gives \<open>t\<close> and every earlier one fails. The
  string \<^verbatim>\<open>Saturday, Jan 11, 2025 9:00 AM\<close> fails the first format and is parsed by the
  second. When no format matches, no timestamp is returned: the result is \<open>None\<close>, the
  parse failure.
\<close>

theorem parse_event_time_priority:
  "formats = [''%A, %B %d, %Y %I:%M %p'', ''%A, %b %d, %Y %I:%M %p'',
              ''%a, %B %d, %Y %I:%M %p'', ''%a, %b %d, %Y %I:%M %p''] \<and>
   (parse_event_time s = Some t \<longleftrightarrow>
      (\<exists>i<4. strptime s (formats ! i) = Some t \<and> (\<forall>j<i. strptime s (formats ! j) = None))) \<and>
   (parse_event_time s = None \<longleftrightarrow> (\<forall>i<4. strptime s (formats ! i) = None)) \<and>
   strptime ''Saturday, Jan 11, 2025 9:00 AM'' (formats ! 0) = None \<and>
   strptime ''Saturday, Jan 11, 2025 9:00 AM'' (formats ! 1) = Some sample_time \<and>
   parse_event_time ''Saturday, Jan 11, 2025 9:00 AM'' = Some sample_time"
proof -
  have len: "length formats = 4" by (simp add: formats_def)
  have some: "parse_event_time s = Some t \<longleftrightarrow>
      (\<exists>i<4. strptime s (formats ! i) = Some t \<and> (\<forall>j<i. strptime s (formats ! j) = None))"
    unfolding parse_event_time_def try_formats_Some len ..
  have "parse_event_time s = None \<longleftrightarrow> (\<forall>f \<in> set formats. strptime s f = None)"
    unfolding parse_event_time_def by (rule try_formats_None)
  also have "\<dots> \<longleftrightarrow> (\<forall>i<4. strptime s (formats ! i) = None)"
    unfolding all_set_conv_all_nth len ..
  finally have none: "parse_event_time s = None \<longleftrightarrow> (\<forall>i<4. strptime s (formats ! i) = None)" .
  have first: "strptime ''Saturday, Jan 11, 2025 9:00 AM'' (formats ! 0) = None"
    using strptime_abbreviated_month_first by (simp add: formats_def)
  have second: "strptime ''Saturday, Jan 11, 2025 9:00 AM'' (formats ! 1) = Some sample_time"
    using strptime_abbreviated_month_second by (simp add: formats_def)
  have both: "parse_event_time ''Saturday, Jan 11, 2025 9:00 AM'' = Some sample_time"
    by (simp add: parse_event_time_def formats_def strptime_abbreviated_month_first
        strptime_abbreviated_month_second)
  show ?thesis
    using some none first second both by (simp add: formats_def)
qed

theorem parse_event_time_priority_witness:
  "parse_event_time ''Saturday, January 11, 2025 9:00 AM'' = Some sample_time \<and>
   (\<exists>i<4. strptime ''Saturday, January 11, 2025 9:00 AM'' (formats ! i) = Some sample_time \<and>
           (\<forall>j<i. strptime ''Saturday, January 11, 2025 9:00 AM'' (formats ! j) = None))"
  using parse_event_time_priority [of "''Saturday, January 11, 2025 9:00 AM''" sample_time]
    parse_event_time_sample
  by blast

section \<open>SubjectExtractor\<close>

lemma split_py_marker_start:
  "\<not> sublist marker rest \<Longrightarrow> split_py marker (marker @ rest) = [[], rest]"
proof -
  assume n: "\<not> sublist marker rest"
  have "\<not> sublist marker ([] @ butlast marker)"
    using sublist_length_le [of marker "butlast marker"] by (auto simp: marker_def)
  from split_py_first [OF marker_nonempty this, of rest]
  show ?thesis by (simp add: split_py_none [OF n])
qed

lemma split_py_separator_once:
  assumes "\<not> sublist separator (name @ butlast separator)" and "\<not> sublist separator time"
  shows "split_py separator (name @ separator @ time) = [name, time]"
  using split_py_first [OF separator_nonempty assms(1), of time]
  by (simp add: split_py_none [OF assms(2)])

lemma extract_subject_template:
  assumes "\<not> sublist marker (name @ separator @ time)"
    and "\<not> sublist separator (name @ butlast separator)"
    and "\<not> sublist separator time"
  shows "extract_subject (marker @ name @ separator @ time) =
     (case parse_event_time (strip time) of
        None \<Rightarrow> Inl ParseFailure
      | Some t \<Rightarrow> Inr \<lparr>event_name = strip name, event_time = isoformat t\<rparr>)"
  unfolding extract_subject_def
  by (simp add: split_py_marker_start [OF assms(1)] split_py_separator_once [OF assms(2,3)]
      Let_def)

lemma extract_subject_segment:
  assumes "find_sep marker subject_line = Some (before, after)"
  shows "split_py marker subject_line ! 1 =
           (case find_sep marker after of None \<Rightarrow> after | Some (segment, rest) \<Rightarrow> segment)"
    and "1 < length (split_py marker subject_line)"
proof -
  have s: "split_py marker subject_line = before # split_py marker after"
    by (rule split_py_found [OF marker_nonempty assms])
  show "split_py marker subject_line ! 1 =
           (case find_sep marker after of None \<Rightarrow> after | Some (segment, rest) \<Rightarrow> segment)"
    unfolding s using hd_split_py [OF marker_nonempty, of after] by simp
  show "1 < length (split_py marker subject_line)"
    unfolding s by (simp add: length_split_py [OF marker_nonempty])
qed

lemma strip_sample_name: "strip ''Beginners (White/Orng/Yellow)'' = ''Beginners (White/Orng/Yellow)''"
  by code_simp

lemma strip_sample_time:
  "strip ''Saturday, January 11, 2025 9:00 AM'' = ''Saturday, January 11, 2025 9:00 AM''"
  by code_simp

lemma sample_subject_shape:
  "sample_subject = marker @ ''Beginners (White/Orng/Yellow)'' @ separator @
     ''Saturday, January 11, 2025 9:00 AM''"
  by (simp add: sample_subject_def marker_def separator_def)

lemma sample_subject_conditions:
  "\<not> sublist marker (''Beginners (White/Orng/Yellow)'' @ separator @
       ''Saturday, January 11, 2025 9:00 AM'')"
  "\<not> sublist separator (''Beginners (White/Orng/Yellow)'' @ butlast separator)"
  "\<not> sublist separator ''Saturday, January 11, 2025 9:00 AM''"
  unfolding marker_def separator_def by code_simp+

lemma extract_sample: "extract_event_details [(''Subject'', sample_subject)] = Inr sample_details"
proof -
  have "sample_subject \<noteq> []" by (simp add: sample_subject_def)
  moreover have "extract_subject sample_subject = Inr sample_details"
    unfolding sample_subject_shape extract_subject_template [OF sample_subject_conditions]
    by (simp add: strip_sample_time strip_sample_name parse_event_time_sample
        isoformat_sample_time sample_details_def)
  ultimately show ?thesis by (simp add: extract_event_details_def)
qed

lemma extract_subject_by_segment:
  assumes "find_sep marker subject_line = Some (before, after)"
    and "remainder = (case find_sep marker after of None \<Rightarrow> after | Some (segment, rest) \<Rightarrow> segment)"
  shows "extract_subject subject_line =
     (if length (split_py separator remainder) \<noteq> 2 then Inl SeparatorMismatch
      else case parse_event_time (strip (split_py separator remainder ! 1)) of
             None \<Rightarrow> Inl ParseFailure
           | Some t \<Rightarrow> Inr \<lparr>event_name = strip (split_py separator remainder ! 0),
                           event_time = isoformat t\<rparr>)"
  unfolding extract_subject_def assms(2)
  using extract_subject_segment [OF assms(1)]
  by (simp add: Let_def)

lemma extract_subject_no_marker:
  "\<not> sublist marker subject_line \<Longrightarrow> extract_subject subject_line = Inl MarkerMissing"
  by (simp add: extract_subject_def split_py_none Let_def)

lemma find_sep_marker_start: "find_sep marker (marker @ rest) = Some ([], rest)"
proof -
  have "\<not> sublist marker ([] @ butlast marker)"
    using sublist_length_le [of marker "butlast marker"] by (auto simp: marker_def)
  from find_sep_first [OF marker_nonempty this, of rest] show ?thesis by simp
qed

lemma strip_segment_name: "strip ''A'' = ''A''"
  by code_simp

lemma strip_segment_time:
  "strip ''Saturday, January 11, 2025 9:00 AM '' = ''Saturday, January 11, 2025 9:00 AM''"
  by code_simp

lemma two_marker_segment:
  "find_sep marker (''A on Saturday, January 11, 2025 9:00 AM '' @ marker @ rest) =
     Some (''A on Saturday, January 11, 2025 9:00 AM '', rest)"
proof -
  have "\<not> sublist marker (''A on Saturday, January 11, 2025 9:00 AM '' @ butlast marker)"
    unfolding marker_def by code_simp
  from find_sep_first [OF marker_nonempty this] show ?thesis .
qed

lemma segment_split:
  "split_py separator ''A on Saturday, January 11, 2025 9:00 AM '' =
     [''A'', ''Saturday, January 11, 2025 9:00 AM '']"
proof -
  have 1: "\<not> sublist separator (''A'' @ butlast separator)"
    unfolding separator_def by code_simp
  have 2: "\<not> sublist separator ''Saturday, January 11, 2025 9:00 AM ''"
    unfolding separator_def by code_simp
  from split_py_separator_once [OF 1 2] show ?thesis by (simp add: separator_def)
qed

lemma extract_segment_result:
  assumes "subject_line = marker @ ''A on Saturday, January 11, 2025 9:00 AM '' @ marker @ rest"
  shows "extract_subject subject_line = Inr \<lparr>event_name = ''A'', event_time = ''2025-01-11T09:00:00''\<rparr>"
proof -
  have f: "find_sep marker subject_line =
      Some ([], ''A on Saturday, January 11, 2025 9:00 AM '' @ marker @ rest)"
    unfolding assms by (rule find_sep_marker_start)
  show ?thesis
    unfolding extract_subject_by_segment [OF f refl] two_marker_segment
    by (simp add: segment_split strip_segment_name strip_segment_time parse_event_time_sample
        isoformat_sample_time)
qed

text \<open>
  C1, as stated, fails where \<^verbatim>\<open> on \<close> occurs in the name: the subject
  \<^verbatim>\<open>Registration Confirmation: Skate on Ice on Saturday, January 11, 2025 9:00 AM\<close> has the
  form of the template with the name \<^verbatim>\<open>Skate on Ice\<close> and a time in the first format, and
  the extractor answers with the message about the separator.
\<close>

theorem extract_template_counterexample:
  "skate_subject = marker @ ''Skate on Ice'' @ separator @ ''Saturday, January 11, 2025 9:00 AM'' \<and>
   parse_event_time (strip ''Saturday, January 11, 2025 9:00 AM'') = Some sample_time \<and>
   extract_event_details [(''Subject'', skate_subject)] = Inl SeparatorMismatch"
proof -
  have shape: "skate_subject = marker @ ''Skate on Ice'' @ separator @
      ''Saturday, January 11, 2025 9:00 AM''"
    by (simp add: skate_subject_def marker_def separator_def)
  have f: "find_sep marker skate_subject =
      Some ([], ''Skate on Ice'' @ separator @ ''Saturday, January 11, 2025 9:00 AM'')"
    unfolding shape by (rule find_sep_marker_start)
  have "\<not> sublist marker (''Skate on Ice'' @ separator @ ''Saturday, January 11, 2025 9:00 AM'')"
    unfolding marker_def separator_def by code_simp
  then have n: "find_sep marker (''Skate on Ice'' @ separator @
      ''Saturday, January 11, 2025 9:00 AM'') = None"
    using find_sep_None [OF marker_nonempty] by blast
  have 1: "\<not> sublist separator (''Skate'' @ butlast separator)"
    unfolding separator_def by code_simp
  have 2: "\<not> sublist separator (''Ice'' @ butlast separator)"
    unfolding separator_def by code_simp
  have 3: "\<not> sublist separator ''Saturday, January 11, 2025 9:00 AM''"
    unfolding separator_def by code_simp
  have e: "''Skate on Ice'' @ separator @ ''Saturday, January 11, 2025 9:00 AM'' =
      ''Skate'' @ separator @ ''Ice'' @ separator @ ''Saturday, January 11, 2025 9:00 AM''"
    by (simp add: separator_def)
  have s1: "split_py separator (''Skate'' @ separator @ ''Ice'' @ separator @
      ''Saturday, January 11, 2025 9:00 AM'') =
    ''Skate'' # split_py separator (''Ice'' @ separator @ ''Saturday, January 11, 2025 9:00 AM'')"
    by (rule split_py_first [OF separator_nonempty 1])
  have s2: "split_py separator (''Ice'' @ separator @ ''Saturday, January 11, 2025 9:00 AM'') =
      [''Ice'', ''Saturday, January 11, 2025 9:00 AM'']"
    by (rule split_py_separator_once [OF 2 3])
  have sp: "split_py separator (''Skate on Ice'' @ separator @
      ''Saturday, January 11, 2025 9:00 AM'') =
      [''Skate'', ''Ice'', ''Saturday, January 11, 2025 9:00 AM'']"
    unfolding e s1 s2 ..
  have "extract_subject skate_subject = Inl SeparatorMismatch"
    unfolding extract_subject_by_segment [OF f refl] n option.case sp by simp
  moreover have "skate_subject \<noteq> []" by (simp add: skate_subject_def)
  ultimately have "extract_event_details [(''Subject'', skate_subject)] = Inl SeparatorMismatch"
    by (simp add: extract_event_details_def)
  with shape show ?thesis by (simp add: strip_sample_time parse_event_time_sample)
qed

text \<open>
  C1, amended. For every message whose subject line is
  \<^verbatim>\<open>Registration Confirmation: <name> on <time>\<close>, where the text after the marker contains no
  further marker and contains \<^verbatim>\<open> on \<close> only as the separator (it does not occur in
  \<^verbatim>\<open><name> on\<close> nor in \<^verbatim>\<open><time>\<close>), and where \<^verbatim>\<open><time>\<close>, trimmed, is parsed by one of the four
  formats: the event name is \<^verbatim>\<open><name>\<close> trimmed, and the event time is the ISO form of the
  parse of \<^verbatim>\<open><time>\<close> trimmed.
\<close>

theorem extract_template:
  assumes "find_subject msg = Some (marker @ name @ separator @ time)"
    and "\<not> sublist marker (name @ separator @ time)"
    and "\<not> sublist separator (name @ '' on'')"
    and "\<not> sublist separator time"
    and "parse_event_time (strip time) = Some t"
  shows "extract_event_details msg = Inr \<lparr>event_name = strip name, event_time = isoformat t\<rparr>"
proof -
  have b: "butlast separator = '' on''" by (simp add: separator_def)
  have "marker @ name @ separator @ time \<noteq> []" by (simp add: marker_def)
  with assms(1,5) show ?thesis
    unfolding extract_event_details_def
    using extract_subject_template [OF assms(2) assms(3) [folded b] assms(4)]
    by simp
qed

theorem extract_template_witness:
  "extract_event_details [(''Subject'',
     ''Registration Confirmation: Beginners (White/Orng/Yellow) on Saturday, January 11, 2025 9:00 AM'')] =
   Inr \<lparr>event_name = ''Beginners (White/Orng/Yellow)'', event_time = ''2025-01-11T09:00:00''\<rparr>"
proof -
  have f: "find_subject [(''Subject'', sample_subject)] =
      Some (marker @ ''Beginners (White/Orng/Yellow)'' @ separator @
        ''Saturday, January 11, 2025 9:00 AM'')"
    by (simp add: sample_subject_shape)
  have p: "parse_event_time (strip ''Saturday, January 11, 2025 9:00 AM'') = Some sample_time"
    by (simp add: strip_sample_time parse_event_time_sample)
  have b: "''Beginners (White/Orng/Yellow)'' @ '' on'' =
      ''Beginners (White/Orng/Yellow)'' @ butlast separator"
    by (simp add: separator_def)
  from extract_template [OF f sample_subject_conditions(1)
      sample_subject_conditions(2) [folded b] sample_subject_conditions(3) p]
  show ?thesis
    by (simp add: sample_subject_def strip_sample_name isoformat_sample_time)
qed

text \<open>
  C5, as stated, fails where the marker occurs twice: in
  \<^verbatim>\<open>Registration Confirmation: A on Saturday, January 11, 2025 9:00 AM Registration Confirmation: B\<close>
  the text after the first marker runs to the end of the subject, and the portion the
  extractor processes stops before the second marker.
\<close>

theorem remainder_full_suffix_counterexample:
  "find_sep marker two_marker_subject =
     Some ([], ''A on Saturday, January 11, 2025 9:00 AM Registration Confirmation: B'') \<and>
   split_py marker two_marker_subject ! 1 = ''A on Saturday, January 11, 2025 9:00 AM '' \<and>
   extract_event_details [(''Subject'', two_marker_subject)] =
     Inr \<lparr>event_name = ''A'', event_time = ''2025-01-11T09:00:00''\<rparr>"
proof -
  have shape: "two_marker_subject =
      marker @ ''A on Saturday, January 11, 2025 9:00 AM '' @ marker @ ''B''"
    by (simp add: two_marker_subject_def marker_def)
  have f: "find_sep marker two_marker_subject =
      Some ([], ''A on Saturday, January 11, 2025 9:00 AM '' @ marker @ ''B'')"
    unfolding shape by (rule find_sep_marker_start)
  have s: "split_py marker two_marker_subject ! 1 = ''A on Saturday, January 11, 2025 9:00 AM ''"
    unfolding extract_subject_segment(1) [OF f] two_marker_segment by simp
  have "two_marker_subject \<noteq> []" by (simp add: two_marker_subject_def)
  with extract_segment_result [OF shape]
  have "extract_event_details [(''Subject'', two_marker_subject)] =
      Inr \<lparr>event_name = ''A'', event_time = ''2025-01-11T09:00:00''\<rparr>"
    by (simp add: extract_event_details_def)
  with f s show ?thesis by (simp add: marker_def)
qed

lemma remainder_without_marker:
  assumes "remainder = (case find_sep marker after of None \<Rightarrow> after | Some (segment, rest) \<Rightarrow> segment)"
  shows "\<not> sublist marker remainder" and "remainder = after \<longleftrightarrow> \<not> sublist marker after"
proof -
  show "\<not> sublist marker remainder"
  proof (cases "find_sep marker after")
    case None
    with assms show ?thesis using find_sep_None [OF marker_nonempty, of after] by simp
  next
    case (Some sr)
    obtain segment rest where sr: "sr = (segment, rest)" by (cases sr)
    from Some have f: "find_sep marker after = Some (segment, rest)" unfolding sr .
    from find_sep_SomeD [OF f marker_nonempty]
    have "\<not> sublist marker (segment @ butlast marker)" by simp
    then have "\<not> sublist marker segment" by (auto simp: sublist_append)
    with assms f show ?thesis by simp
  qed
  show "remainder = after \<longleftrightarrow> \<not> sublist marker after"
  proof (cases "find_sep marker after")
    case None
    with assms show ?thesis using find_sep_None [OF marker_nonempty, of after] by simp
  next
    case (Some sr)
    obtain segment rest where sr: "sr = (segment, rest)" by (cases sr)
    from Some have f: "find_sep marker after = Some (segment, rest)" unfolding sr .
    from find_sep_SomeD [OF f marker_nonempty]
    have a: "after = segment @ marker @ rest" by simp
    then have "length segment < length after" by (simp add: marker_def)
    then have "segment \<noteq> after" by auto
    moreover have "sublist marker after" unfolding a by simp
    ultimately show ?thesis using assms f by simp
  qed
qed

text \<open>
  C5, amended. The extractor splits the subject line on every occurrence of the marker
  and processes the piece after the first occurrence: when the first occurrence splits
  the subject into the text before it and the text after it, the remainder that is split
  on \<^verbatim>\<open> on \<close>, trimmed and parsed is the text after it up to the next occurrence of the
  marker. The extractor's answer is computed from that remainder alone, and is the answer
  for the subject that consists of the marker and the remainder. The remainder is all of
  the text after the first marker exactly when that text holds no further marker.
\<close>

theorem remainder_is_segment:
  assumes "find_subject msg = Some subject_line"
    and "find_sep marker subject_line = Some (before, after)"
    and "remainder = (case find_sep marker after of None \<Rightarrow> after | Some (segment, rest) \<Rightarrow> segment)"
  shows "split_py marker subject_line ! 1 = remainder \<and>
         extract_event_details msg =
           (if length (split_py separator remainder) \<noteq> 2 then Inl SeparatorMismatch
            else case parse_event_time (strip (split_py separator remainder ! 1)) of
                   None \<Rightarrow> Inl ParseFailure
                 | Some t \<Rightarrow> Inr \<lparr>event_name = strip (split_py separator remainder ! 0),
                                 event_time = isoformat t\<rparr>) \<and>
         extract_event_details msg = extract_event_details [(''Subject'', marker @ remainder)] \<and>
         (remainder = after \<longleftrightarrow> \<not> sublist marker after)"
proof -
  from find_sep_SomeD [OF assms(2) marker_nonempty]
  have "subject_line = before @ marker @ after" by simp
  then have n: "subject_line \<noteq> []" by (simp add: marker_def)
  have 1: "split_py marker subject_line ! 1 = remainder"
    unfolding assms(3) by (rule extract_subject_segment(1) [OF assms(2)])
  have e: "extract_event_details msg = extract_subject subject_line"
    using assms(1) n by (simp add: extract_event_details_def)
  note r = remainder_without_marker [OF assms(3)]
  from r(1) have "find_sep marker remainder = None"
    using find_sep_None [OF marker_nonempty, of remainder] by simp
  then have r': "remainder = (case find_sep marker remainder of None \<Rightarrow> remainder
      | Some (segment, rest) \<Rightarrow> segment)"
    by simp
  have e': "extract_event_details [(''Subject'', marker @ remainder)] =
      extract_subject (marker @ remainder)"
    using marker_nonempty by (simp add: extract_event_details_def)
  show ?thesis
    unfolding e e'
    using 1 r(2) extract_subject_by_segment [OF assms(2,3)]
      extract_subject_by_segment [OF find_sep_marker_start r']
    by simp
qed

theorem remainder_is_segment_witness:
  "split_py marker two_marker_subject ! 1 = ''A on Saturday, January 11, 2025 9:00 AM '' \<and>
   extract_event_details [(''Subject'', two_marker_subject)] =
     extract_event_details
       [(''Subject'', ''Registration Confirmation: A on Saturday, January 11, 2025 9:00 AM '')]"
proof -
  have shape: "two_marker_subject =
      marker @ ''A on Saturday, January 11, 2025 9:00 AM '' @ marker @ ''B''"
    by (simp add: two_marker_subject_def marker_def)
  have s: "find_subject [(''Subject'', two_marker_subject)] = Some two_marker_subject"
    by simp
  have f: "find_sep marker two_marker_subject =
      Some ([], ''A on Saturday, January 11, 2025 9:00 AM '' @ marker @ ''B'')"
    unfolding shape by (rule find_sep_marker_start)
  have r: "''A on Saturday, January 11, 2025 9:00 AM '' =
      (case find_sep marker (''A on Saturday, January 11, 2025 9:00 AM '' @ marker @ ''B'') of
         None \<Rightarrow> ''A on Saturday, January 11, 2025 9:00 AM '' @ marker @ ''B''
       | Some (segment, rest) \<Rightarrow> segment)"
    unfolding two_marker_segment by simp
  note t = remainder_is_segment [OF s f r]
  have m: "marker @ ''A on Saturday, January 11, 2025 9:00 AM '' =
      ''Registration Confirmation: A on Saturday, January 11, 2025 9:00 AM ''"
    by (simp add: marker_def)
  from t have 1: "split_py marker two_marker_subject ! 1 =
      ''A on Saturday, January 11, 2025 9:00 AM ''"
    by (rule conjunct1)
  from t have 2: "extract_event_details [(''Subject'', two_marker_subject)] =
      extract_event_details
        [(''Subject'', marker @ ''A on Saturday, January 11, 2025 9:00 AM '')]"
    by blast
  from 1 2 [unfolded m] show ?thesis by (rule conjI)
qed

text \<open>
  C4, as stated, fails where the marker occurs twice: in
  \<^verbatim>\<open>Registration Confirmation: A on Saturday, January 11, 2025 9:00 AM Registration Confirmation: B on C\<close>
  the text after the first marker contains \<^verbatim>\<open> on \<close> twice, and the extractor returns the
  details of event \<^verbatim>\<open>A\<close>.
\<close>

theorem format_mismatch_counterexample:
  "find_sep marker two_event_subject =
     Some ([], ''A on Saturday, January 11, 2025 9:00 AM Registration Confirmation: B on C'') \<and>
   count_py separator
     ''A on Saturday, January 11, 2025 9:00 AM Registration Confirmation: B on C'' = 2 \<and>
   extract_event_details [(''Subject'', two_event_subject)] =
     Inr \<lparr>event_name = ''A'', event_time = ''2025-01-11T09:00:00''\<rparr>"
proof -
  have shape: "two_event_subject =
      marker @ ''A on Saturday, January 11, 2025 9:00 AM '' @ marker @ ''B on C''"
    by (simp add: two_event_subject_def marker_def)
  have f: "find_sep marker two_event_subject =
      Some ([], ''A on Saturday, January 11, 2025 9:00 AM '' @ marker @ ''B on C'')"
    unfolding shape by (rule find_sep_marker_start)
  have 1: "\<not> sublist separator (''A'' @ butlast separator)"
    unfolding separator_def by code_simp
  have 2: "\<not> sublist separator
      (''Saturday, January 11, 2025 9:00 AM Registration Confirmation: B'' @ butlast separator)"
    unfolding separator_def by code_simp
  have 3: "\<not> sublist separator ''C''"
    unfolding separator_def by code_simp
  have e: "''A on Saturday, January 11, 2025 9:00 AM Registration Confirmation: B on C'' =
      ''A'' @ separator @ ''Saturday, January 11, 2025 9:00 AM Registration Confirmation: B'' @
      separator @ ''C''"
    by (simp add: separator_def)
  have s1: "split_py separator (''A'' @ separator @
      ''Saturday, January 11, 2025 9:00 AM Registration Confirmation: B'' @ separator @ ''C'') =
    ''A'' # split_py separator
      (''Saturday, January 11, 2025 9:00 AM Registration Confirmation: B'' @ separator @ ''C'')"
    by (rule split_py_first [OF separator_nonempty 1])
  have s2: "split_py separator
      (''Saturday, January 11, 2025 9:00 AM Registration Confirmation: B'' @ separator @ ''C'') =
    [''Saturday, January 11, 2025 9:00 AM Registration Confirmation: B'', ''C'']"
    by (rule split_py_separator_once [OF 2 3])
  have "length (split_py separator
      ''A on Saturday, January 11, 2025 9:00 AM Registration Confirmation: B on C'') = 3"
    unfolding e s1 s2 by simp
  then have c: "count_py separator
      ''A on Saturday, January 11, 2025 9:00 AM Registration Confirmation: B on C'' = 2"
    by (simp add: length_split_py [OF separator_nonempty])
  have "two_event_subject \<noteq> []" by (simp add: two_event_subject_def)
  with extract_segment_result [OF shape]
  have "extract_event_details [(''Subject'', two_event_subject)] =
      Inr \<lparr>event_name = ''A'', event_time = ''2025-01-11T09:00:00''\<rparr>"
    by (simp add: extract_event_details_def)
  with f c show ?thesis by (simp add: marker_def)
qed

text \<open>
  C4, amended. For every message with a non-empty subject line: when the subject lacks
  the marker, the extractor answers with the message about the marker; when the
  remainder, the text between the first occurrence of the marker and the next one (or the
  end of the subject), does not contain exactly one occurrence of \<^verbatim>\<open> on \<close>, counted from
  the left without overlap, it answers with the message about the separator. Either is a
  format mismatch: no event details are produced, and the loop goes on to the next
  message with the count, the calendar and the trace of calendar calls unchanged.
\<close>

theorem format_mismatch:
  assumes "messages_get gmail message = Inr msg"
    and "find_subject msg = Some subject_line"
    and "subject_line \<noteq> []"
    and "remainder = (case find_sep marker subject_line of
                        None \<Rightarrow> []
                      | Some (before, after) \<Rightarrow>
                          (case find_sep marker after of
                             None \<Rightarrow> after
                           | Some (segment, rest) \<Rightarrow> segment))"
    and "\<not> sublist marker subject_line \<or> count_py separator remainder \<noteq> 1"
  shows "extract_event_details msg =
           Inl (if sublist marker subject_line then SeparatorMismatch else MarkerMissing) \<and>
         (\<exists>err \<in> FormatMismatch. extract_event_details msg = Inl err) \<and>
         process_messages gmail cal env email1 email2 (message # messages) events_created out w =
           process_messages gmail cal env email1 email2 messages events_created out w"
proof -
  have e: "extract_event_details msg = extract_subject subject_line"
    using assms(2,3) by (simp add: extract_event_details_def)
  have r: "extract_subject subject_line =
      Inl (if sublist marker subject_line then SeparatorMismatch else MarkerMissing)"
  proof (cases "sublist marker subject_line")
    case False
    then show ?thesis by (simp add: extract_subject_no_marker)
  next
    case True
    then obtain before after where f: "find_sep marker subject_line = Some (before, after)"
      using find_sep_None [OF marker_nonempty, of subject_line] by (cases "find_sep marker subject_line") auto
    from assms(4) f have rem: "remainder =
        (case find_sep marker after of None \<Rightarrow> after | Some (segment, rest) \<Rightarrow> segment)"
      by simp
    from True assms(5) have "count_py separator remainder \<noteq> 1" by simp
    then have "length (split_py separator remainder) \<noteq> 2"
      by (simp add: length_split_py [OF separator_nonempty])
    with True show ?thesis
      unfolding extract_subject_by_segment [OF f rem] by simp
  qed
  have "\<exists>err \<in> FormatMismatch. extract_event_details msg = Inl err"
    unfolding e r by (simp add: FormatMismatch_def)
  moreover have "process_messages gmail cal env email1 email2 (message # messages)
      events_created out w =
    process_messages gmail cal env email1 email2 messages events_created out w"
    using assms(1) e r by simp
  ultimately show ?thesis using e r by simp
qed

theorem format_mismatch_witness:
  "extract_event_details [(''Subject'', ''Registration Confirmation: Advanced Class'')] =
     Inl SeparatorMismatch \<and>
   process_messages (mailbox [(''m1'', [(''Subject'', advanced_subject)])]) memory_calendar central
     ''first@example.org'' ''second@example.org'' [''m1''] 0 [] fresh = (Inr 0, [], fresh)"
proof -
  have g: "messages_get (mailbox [(''m1'', [(''Subject'', advanced_subject)])]) ''m1'' =
      Inr [(''Subject'', advanced_subject)]"
    by (simp add: mailbox_def)
  have s: "find_subject [(''Subject'', advanced_subject)] = Some advanced_subject" by simp
  have n: "advanced_subject \<noteq> []" by (simp add: advanced_subject_def)
  have shape: "advanced_subject = marker @ ''Advanced Class''"
    by (simp add: advanced_subject_def marker_def)
  have f: "find_sep marker advanced_subject = Some ([], ''Advanced Class'')"
    unfolding shape by (rule find_sep_marker_start)
  have "\<not> sublist marker ''Advanced Class''"
    unfolding marker_def by code_simp
  then have m: "find_sep marker ''Advanced Class'' = None"
    using find_sep_None [OF marker_nonempty] by blast
  have "\<not> sublist separator ''Advanced Class''"
    unfolding separator_def by code_simp
  then have "find_sep separator ''Advanced Class'' = None"
    using find_sep_None [OF separator_nonempty] by blast
  then have c: "count_py separator ''Advanced Class'' = 0"
    by (simp add: count_py.simps [of separator "''Advanced Class''"] separator_nonempty)
  have r: "''Advanced Class'' = (case find_sep marker advanced_subject of
                        None \<Rightarrow> []
                      | Some (before, after) \<Rightarrow>
                          (case find_sep marker after of
                             None \<Rightarrow> after
                           | Some (segment, rest) \<Rightarrow> segment))"
    by (simp add: f m)
  have d: "\<not> sublist marker advanced_subject \<or> count_py separator ''Advanced Class'' \<noteq> 1"
    by (simp add: c)
  have k: "sublist marker advanced_subject" unfolding shape by simp
  from format_mismatch [OF g s n r d, of memory_calendar central "''first@example.org''"
      "''second@example.org''" "[]" 0 "[]" fresh] k
  show ?thesis by (simp add: advanced_subject_def)
qed

section \<open>DuplicateChecker and EventScheduler\<close>

lemma check_existing_event_eq:
  "check_existing_event cal name s e w =
     (events_list cal (calendar w) \<lparr>timeMin = s, timeMax = e, q = name\<rparr>,
      w\<lparr>calls := calls w @ [EventsList \<lparr>timeMin = s, timeMax = e, q = name\<rparr>]\<rparr>)"
  by (simp add: check_existing_event_def Let_def)

text \<open>
  What one call of \<open>create_calendar_event\<close> adds to the trace: nothing when the
  timestamp cannot be converted, the query alone when the query raises or finds an event,
  the query and then the insert over the same window otherwise.
\<close>

lemma create_calendar_event_trace:
  assumes "create_calendar_event cal env details email1 email2 w = (r, w')"
  shows "(calls w' = calls w \<and> calendar w' = calendar w \<and> (\<exists>e. r = Inl e)) \<or>
         (\<exists>request. calls w' = calls w @ [EventsList request] \<and> calendar w' = calendar w \<and>
            (\<forall>event. r \<noteq> Inr (Some event))) \<or>
         (\<exists>event ok. calls w' = calls w @
              [EventsList \<lparr>timeMin = start_dateTime event, timeMax = end_dateTime event,
                           q = summary event\<rparr>,
               EventsInsert event ok] \<and>
            wall_seconds (end_dateTime event) = wall_seconds (start_dateTime event) + 3600 \<and>
            utcoffset (end_dateTime event) = utcoffset (start_dateTime event) \<and>
            (ok \<longleftrightarrow> (\<exists>e. r = Inr (Some e))))"
  using assms
  unfolding create_calendar_event_def check_existing_event_eq plus_hours_def
  by (auto simp: Let_def split: option.splits sum.splits prod.splits if_splits)

text \<open>
  C2. The duplicate check returns what the calendar's query for the window and the name
  returns, whatever that is, and adds the query to the trace: so it is true (a non-empty
  list) exactly when the query's list is non-empty. In \<open>create_calendar_event\<close>, when it
  is true for a message's event name and window, the function returns without an insert,
  the trace gains the query alone, the calendar is as before, and the loop goes on to the
  next message with the same count; when it is false, the insert over that window is
  called.
\<close>

theorem duplicate_check_blocks_insert:
  "check_existing_event cal name start_time end_time w =
     (events_list cal (calendar w) \<lparr>timeMin = start_time, timeMax = end_time, q = name\<rparr>,
      w\<lparr>calls := calls w @
          [EventsList \<lparr>timeMin = start_time, timeMax = end_time, q = name\<rparr>]\<rparr>) \<and>
   (fromisoformat (event_time details) = Some t \<and>
    astimezone env t = Inr start_time \<and>
    plus_hours start_time 1 = Inr end_time \<and>
    request = \<lparr>timeMin = start_time, timeMax = end_time, q = event_name details\<rparr> \<and>
    events_list cal (calendar w) request = Inr existing \<longrightarrow>
      (existing \<noteq> [] \<longrightarrow>
         create_calendar_event cal env details email1 email2 w =
           (Inr None, w\<lparr>calls := calls w @ [EventsList request]\<rparr>) \<and>
         (messages_get gmail message = Inr msg \<and> extract_event_details msg = Inr details \<longrightarrow>
            process_messages gmail cal env email1 email2 (message # messages) events_created
              out w =
            process_messages gmail cal env email1 email2 messages events_created out
              (w\<lparr>calls := calls w @ [EventsList request]\<rparr>))) \<and>
      (existing = [] \<longrightarrow>
         (\<exists>ok. calls (snd (create_calendar_event cal env details email1 email2 w)) =
            calls w @
              [EventsList request,
               EventsInsert \<lparr>summary = event_name details,
                              start_dateTime = start_time, start_timeZone = ''America/Chicago'',
                              end_dateTime = end_time, end_timeZone = ''America/Chicago'',
                              attendees = [email1, email2]\<rparr> ok])))"
proof (intro conjI impI)
  show "check_existing_event cal name start_time end_time w =
     (events_list cal (calendar w) \<lparr>timeMin = start_time, timeMax = end_time, q = name\<rparr>,
      w\<lparr>calls := calls w @
          [EventsList \<lparr>timeMin = start_time, timeMax = end_time, q = name\<rparr>]\<rparr>)"
    by (rule check_existing_event_eq)
next
  assume h: "fromisoformat (event_time details) = Some t \<and>
    astimezone env t = Inr start_time \<and>
    plus_hours start_time 1 = Inr end_time \<and>
    request = \<lparr>timeMin = start_time, timeMax = end_time, q = event_name details\<rparr> \<and>
    events_list cal (calendar w) request = Inr existing"
    and e: "existing \<noteq> []"
  from h have h1: "fromisoformat (event_time details) = Some t"
    and h2: "astimezone env t = Inr start_time"
    and h3: "plus_hours start_time 1 = Inr end_time"
    and h4: "request = \<lparr>timeMin = start_time, timeMax = end_time, q = event_name details\<rparr>"
    and h5: "events_list cal (calendar w) request = Inr existing"
    by blast+
  show c: "create_calendar_event cal env details email1 email2 w =
      (Inr None, w\<lparr>calls := calls w @ [EventsList request]\<rparr>)"
    using h1 h2 h3 h4 h5 e by (simp add: create_calendar_event_def check_existing_event_eq)
  assume "messages_get gmail message = Inr msg \<and> extract_event_details msg = Inr details"
  with c show "process_messages gmail cal env email1 email2 (message # messages)
      events_created out w =
    process_messages gmail cal env email1 email2 messages events_created out
      (w\<lparr>calls := calls w @ [EventsList request]\<rparr>)"
    by simp
next
  assume h: "fromisoformat (event_time details) = Some t \<and>
    astimezone env t = Inr start_time \<and>
    plus_hours start_time 1 = Inr end_time \<and>
    request = \<lparr>timeMin = start_time, timeMax = end_time, q = event_name details\<rparr> \<and>
    events_list cal (calendar w) request = Inr existing"
    and e: "existing = []"
  from h have h1: "fromisoformat (event_time details) = Some t"
    and h2: "astimezone env t = Inr start_time"
    and h3: "plus_hours start_time 1 = Inr end_time"
    and h4: "request = \<lparr>timeMin = start_time, timeMax = end_time, q = event_name details\<rparr>"
    and h5: "events_list cal (calendar w) request = Inr existing"
    by blast+
  from h1 h2 h3 h4 h5 e show "\<exists>ok. calls (snd (create_calendar_event cal env details email1 email2 w)) =
            calls w @
              [EventsList request,
               EventsInsert \<lparr>summary = event_name details,
                              start_dateTime = start_time, start_timeZone = ''America/Chicago'',
                              end_dateTime = end_time, end_timeZone = ''America/Chicago'',
                              attendees = [email1, email2]\<rparr> ok]"
    by (auto simp: create_calendar_event_def check_existing_event_eq Let_def
        split: prod.splits sum.splits)
qed

text \<open>
  C7. Whenever \<open>create_calendar_event\<close> inserts an event, the event's end is its start
  plus 3600 seconds, with the same UTC offset, and the call before the insert is the
  duplicate query with this start as \<open>timeMin\<close> and this end as \<open>timeMax\<close>.
\<close>

theorem window_one_hour:
  assumes "create_calendar_event cal env details email1 email2 w = (r, w')"
    and "calls w' = calls w @ new"
    and "EventsInsert event ok \<in> set new"
  shows "new = [EventsList \<lparr>timeMin = start_dateTime event, timeMax = end_dateTime event,
                            q = summary event\<rparr>,
                EventsInsert event ok] \<and>
         wall_seconds (end_dateTime event) = wall_seconds (start_dateTime event) + 3600 \<and>
         utcoffset (end_dateTime event) = utcoffset (start_dateTime event)"
  using create_calendar_event_trace [OF assms(1)] assms(2,3) by auto

text \<open>
  C10. The start of the window is the parsed timestamp read as a time of the runtime's
  local zone and moved to Chicago's wall clock: the query's \<open>timeMin\<close> carries Chicago's
  offset at that instant, and its wall-clock reading is the parsed reading plus Chicago's
  offset minus the local offset. It equals the parsed reading exactly when the two
  offsets agree.
\<close>

theorem start_shifted_by_offset_difference:
  assumes "parse_event_time s = Some t"
    and "event_time details = isoformat t"
    and "create_calendar_event cal env details email1 email2 w = (r, w')"
    and "calls w' = calls w @ EventsList request # rest"
    and "local = local_utcoffset env (to_seconds t)"
    and "chicago = chicago_utcoffset env (to_seconds t - local)"
  shows "utcoffset (timeMin request) = chicago \<and>
         wall_seconds (timeMin request) = to_seconds t + (chicago - local) \<and>
         (wall_seconds (timeMin request) = to_seconds t \<longleftrightarrow> local = chicago)"
proof -
  have f: "fromisoformat (event_time details) = Some t"
    using assms(1,2) by (simp add: fromisoformat_isoformat parse_event_time_valid)
  have "timeMin request = \<lparr>wall_seconds = to_seconds t - local + chicago, utcoffset = chicago\<rparr>"
    using assms(3,4)
    unfolding create_calendar_event_def f check_existing_event_eq astimezone_def plus_hours_def
      assms(5,6)
    by (auto simp: Let_def split: option.splits sum.splits prod.splits if_splits)
  then show ?thesis by auto
qed

lemma sample_request_eq:
  "sample_request =
     \<lparr>timeMin = sample_start, timeMax = sample_end, q = event_name sample_details\<rparr>"
  by (simp add: sample_request_def sample_details_def)

lemma fromisoformat_sample_details: "fromisoformat (event_time sample_details) = Some sample_time"
  by (simp add: sample_details_def fromisoformat_sample)

lemma events_list_sample_event:
  "events_list memory_calendar [sample_event]
     \<lparr>timeMin = sample_start, timeMax = sample_end, q = event_name sample_details\<rparr> =
   Inr [sample_event]"
  by (simp add: memory_calendar_def sample_event_def sample_details_def
      sample_start_def sample_end_def)

lemma events_list_booked:
  "events_list memory_calendar (calendar booked) sample_request = Inr [sample_event]"
  using events_list_sample_event by (simp add: booked_def sample_request_def sample_details_def)

lemma create_sample_duplicate:
  assumes "calendar w = [sample_event]"
  shows "create_calendar_event memory_calendar central sample_details email1 email2 w =
     (Inr None, w\<lparr>calls := calls w @ [EventsList sample_request]\<rparr>)"
proof -
  have "create_calendar_event memory_calendar central sample_details email1 email2 w =
     (Inr None, w\<lparr>calls := calls w @ [EventsList
        \<lparr>timeMin = sample_start, timeMax = sample_end, q = event_name sample_details\<rparr>]\<rparr>)"
    by (simp add: create_calendar_event_def fromisoformat_sample_details astimezone_central
        plus_hours_sample check_existing_event_eq assms events_list_sample_event)
  then show ?thesis by (simp add: sample_request_eq)
qed

lemma extract_advanced:
  "extract_event_details [(''Subject'', advanced_subject)] = Inl SeparatorMismatch"
proof -
  have shape: "advanced_subject = marker @ ''Advanced Class''"
    by (simp add: advanced_subject_def marker_def)
  have f: "find_sep marker advanced_subject = Some ([], ''Advanced Class'')"
    unfolding shape by (rule find_sep_marker_start)
  have "\<not> sublist marker ''Advanced Class''"
    unfolding marker_def by code_simp
  then have m: "find_sep marker ''Advanced Class'' = None"
    using find_sep_None [OF marker_nonempty] by blast
  have "\<not> sublist separator ''Advanced Class''"
    unfolding separator_def by code_simp
  then have "split_py separator ''Advanced Class'' = [''Advanced Class'']"
    by (rule split_py_none)
  then have "extract_subject advanced_subject = Inl SeparatorMismatch"
    unfolding extract_subject_by_segment [OF f refl] m by simp
  moreover have "advanced_subject \<noteq> []" by (simp add: advanced_subject_def)
  ultimately show ?thesis by (simp add: extract_event_details_def)
qed

lemma messages_get_m2: "messages_get sample_mailbox ''m2'' = Inr [(''Subject'', sample_subject)]"
  by (simp add: sample_mailbox_def mailbox_def)

lemma messages_get_m1: "messages_get sample_mailbox ''m1'' = Inr [(''Subject'', advanced_subject)]"
  by (simp add: sample_mailbox_def mailbox_def)

theorem duplicate_check_blocks_insert_witness:
  "check_existing_event memory_calendar ''Beginners (White/Orng/Yellow)'' sample_start sample_end
     booked = (Inr [sample_event], \<lparr>calendar = [sample_event], calls = [EventsList sample_request]\<rparr>) \<and>
   create_calendar_event memory_calendar central sample_details
     ''first@example.org'' ''second@example.org'' booked =
     (Inr None, \<lparr>calendar = [sample_event], calls = [EventsList sample_request]\<rparr>) \<and>
   process_messages sample_mailbox memory_calendar central
     ''first@example.org'' ''second@example.org'' [''m2''] 0 [] booked =
     (Inr 0, [], \<lparr>calendar = [sample_event], calls = [EventsList sample_request]\<rparr>)"
proof -
  have n: "[sample_event] \<noteq> []" by simp
  have q: "event_name sample_details = ''Beginners (White/Orng/Yellow)''"
    by (simp add: sample_details_def)
  have l: "events_list memory_calendar (calendar booked)
      \<lparr>timeMin = sample_start, timeMax = sample_end, q = ''Beginners (White/Orng/Yellow)''\<rparr> =
      Inr [sample_event]"
    using events_list_booked by (simp add: sample_request_def)
  note inst = duplicate_check_blocks_insert [where cal = memory_calendar
      and name = "''Beginners (White/Orng/Yellow)''" and start_time = sample_start
      and end_time = sample_end and w = booked and details = sample_details
      and t = sample_time and env = central and request = sample_request
      and existing = "[sample_event]" and ?email1.0 = "''first@example.org''"
      and ?email2.0 = "''second@example.org''" and gmail = sample_mailbox
      and message = "''m2''" and msg = "[(''Subject'', sample_subject)]"
      and messages = "[]" and events_created = 0 and out = "[]"]
  from inst have c: "check_existing_event memory_calendar ''Beginners (White/Orng/Yellow)''
      sample_start sample_end booked =
    (events_list memory_calendar (calendar booked)
       \<lparr>timeMin = sample_start, timeMax = sample_end, q = ''Beginners (White/Orng/Yellow)''\<rparr>,
     booked\<lparr>calls := calls booked @
       [EventsList \<lparr>timeMin = sample_start, timeMax = sample_end,
                    q = ''Beginners (White/Orng/Yellow)''\<rparr>]\<rparr>)"
    by (rule conjunct1)
  have 1: "check_existing_event memory_calendar ''Beginners (White/Orng/Yellow)''
      sample_start sample_end booked =
    (Inr [sample_event], \<lparr>calendar = [sample_event], calls = [EventsList sample_request]\<rparr>)"
    unfolding c l by (simp add: booked_def sample_request_def)
  from inst fromisoformat_sample_details astimezone_central plus_hours_sample sample_request_eq
    events_list_booked n
  have 2: "create_calendar_event memory_calendar central sample_details
     ''first@example.org'' ''second@example.org'' booked =
     (Inr None, booked\<lparr>calls := calls booked @ [EventsList sample_request]\<rparr>)"
    by blast
  from inst fromisoformat_sample_details astimezone_central plus_hours_sample sample_request_eq
    events_list_booked n messages_get_m2 extract_sample
  have 3: "process_messages sample_mailbox memory_calendar central
     ''first@example.org'' ''second@example.org'' [''m2''] 0 [] booked =
     process_messages sample_mailbox memory_calendar central
     ''first@example.org'' ''second@example.org'' [] 0 []
       (booked\<lparr>calls := calls booked @ [EventsList sample_request]\<rparr>)"
    by blast
  from 1 2 3 show ?thesis by (simp add: booked_def)
qed

theorem window_one_hour_witness:
  "create_calendar_event memory_calendar central sample_details
     ''first@example.org'' ''second@example.org'' fresh =
     (Inr (Some sample_event),
      \<lparr>calendar = [sample_event],
       calls = [EventsList sample_request, EventsInsert sample_event True]\<rparr>) \<and>
   sample_request = \<lparr>timeMin = start_dateTime sample_event, timeMax = end_dateTime sample_event,
                      q = summary sample_event\<rparr> \<and>
   wall_seconds (end_dateTime sample_event) = wall_seconds (start_dateTime sample_event) + 3600 \<and>
   utcoffset (end_dateTime sample_event) = utcoffset (start_dateTime sample_event)"
proof -
  have c: "calls \<lparr>calendar = [sample_event],
       calls = [EventsList sample_request, EventsInsert sample_event True]\<rparr> =
     calls fresh @ [EventsList sample_request, EventsInsert sample_event True]"
    by (simp add: fresh_def)
  have i: "EventsInsert sample_event True \<in>
      set [EventsList sample_request, EventsInsert sample_event True]"
    by simp
  from window_one_hour [OF create_sample_fresh c i] create_sample_fresh
  show ?thesis by simp
qed

lemma create_sample_utc_runtime:
  "create_calendar_event memory_calendar (fixed_zones 0 (- 21600)) sample_details
     ''first@example.org'' ''second@example.org'' fresh =
   (Inr (Some (sample_event
        \<lparr>start_dateTime := \<lparr>wall_seconds = 63872247600, utcoffset = - 21600\<rparr>,
         end_dateTime := \<lparr>wall_seconds = 63872251200, utcoffset = - 21600\<rparr>\<rparr>)),
    \<lparr>calendar = [sample_event
        \<lparr>start_dateTime := \<lparr>wall_seconds = 63872247600, utcoffset = - 21600\<rparr>,
         end_dateTime := \<lparr>wall_seconds = 63872251200, utcoffset = - 21600\<rparr>\<rparr>],
     calls = [EventsList \<lparr>timeMin = \<lparr>wall_seconds = 63872247600, utcoffset = - 21600\<rparr>,
                           timeMax = \<lparr>wall_seconds = 63872251200, utcoffset = - 21600\<rparr>,
                           q = ''Beginners (White/Orng/Yellow)''\<rparr>,
              EventsInsert (sample_event
        \<lparr>start_dateTime := \<lparr>wall_seconds = 63872247600, utcoffset = - 21600\<rparr>,
         end_dateTime := \<lparr>wall_seconds = 63872251200, utcoffset = - 21600\<rparr>\<rparr>) True]\<rparr>)"
proof -
  have 2: "event_name sample_details = ''Beginners (White/Orng/Yellow)''"
    by (simp add: sample_details_def)
  show ?thesis
    unfolding create_calendar_event_def fromisoformat_sample_details 2
    by (simp add: astimezone_def plus_hours_def fixed_zones_def to_seconds_sample_time
        representable_def min_seconds_def max_seconds_def check_existing_event_def Let_def
        memory_calendar_def fresh_def sample_event_def)
qed

theorem start_shifted_by_offset_difference_witness:
  "wall_seconds (timeMin sample_request) = to_seconds sample_time \<and>
   utcoffset (timeMin sample_request) = - 21600 \<and>
   wall_seconds \<lparr>wall_seconds = 63872247600, utcoffset = - 21600\<rparr> =
     to_seconds sample_time + (- 21600 - 0)"
proof -
  have e: "event_time sample_details = isoformat sample_time"
    by (simp add: sample_details_def isoformat_sample_time)
  have c: "calls \<lparr>calendar = [sample_event],
       calls = [EventsList sample_request, EventsInsert sample_event True]\<rparr> =
     calls fresh @ EventsList sample_request # [EventsInsert sample_event True]"
    by (simp add: fresh_def)
  have l: "- 21600 = local_utcoffset central (to_seconds sample_time)"
    by (simp add: central_def fixed_zones_def)
  have h: "- 21600 = chicago_utcoffset central (to_seconds sample_time - - 21600)"
    by (simp add: central_def fixed_zones_def)
  have c': "calls \<lparr>calendar = [sample_event
        \<lparr>start_dateTime := \<lparr>wall_seconds = 63872247600, utcoffset = - 21600\<rparr>,
         end_dateTime := \<lparr>wall_seconds = 63872251200, utcoffset = - 21600\<rparr>\<rparr>],
     calls = [EventsList \<lparr>timeMin = \<lparr>wall_seconds = 63872247600, utcoffset = - 21600\<rparr>,
                           timeMax = \<lparr>wall_seconds = 63872251200, utcoffset = - 21600\<rparr>,
                           q = ''Beginners (White/Orng/Yellow)''\<rparr>,
              EventsInsert (sample_event
        \<lparr>start_dateTime := \<lparr>wall_seconds = 63872247600, utcoffset = - 21600\<rparr>,
         end_dateTime := \<lparr>wall_seconds = 63872251200, utcoffset = - 21600\<rparr>\<rparr>) True]\<rparr> =
     calls fresh @ EventsList \<lparr>timeMin = \<lparr>wall_seconds = 63872247600, utcoffset = - 21600\<rparr>,
                           timeMax = \<lparr>wall_seconds = 63872251200, utcoffset = - 21600\<rparr>,
                           q = ''Beginners (White/Orng/Yellow)''\<rparr> #
       [EventsInsert (sample_event
        \<lparr>start_dateTime := \<lparr>wall_seconds = 63872247600, utcoffset = - 21600\<rparr>,
         end_dateTime := \<lparr>wall_seconds = 63872251200, utcoffset = - 21600\<rparr>\<rparr>) True]"
    by (simp add: fresh_def)
  have l': "0 = local_utcoffset (fixed_zones 0 (- 21600)) (to_seconds sample_time)"
    by (simp add: fixed_zones_def)
  have h': "- 21600 = chicago_utcoffset (fixed_zones 0 (- 21600)) (to_seconds sample_time - 0)"
    by (simp add: fixed_zones_def)
  from start_shifted_by_offset_difference [OF parse_event_time_sample e create_sample_fresh c l h]
    start_shifted_by_offset_difference [OF parse_event_time_sample e create_sample_utc_runtime
      c' l' h']
  show ?thesis by simp
qed

subsection \<open>The loop\<close>

lemma process_messages_append:
  "process_messages gmail cal env email1 email2 (earlier @ later) n out w =
     (case process_messages gmail cal env email1 email2 earlier n out w of
        (Inl e, out', w') \<Rightarrow> (Inl e, out', w')
      | (Inr k, out', w') \<Rightarrow> process_messages gmail cal env email1 email2 later k out' w')"
  by (induction earlier arbitrary: n out w)
    (auto split: sum.splits option.splits prod.splits)

text \<open>
  C9, as stated, fails for a fetch that fails with an exception other than \<^verbatim>\<open>HttpError\<close>:
  the loop catches \<^verbatim>\<open>HttpError\<close> only, so the exception leaves the loop, the second
  message, which alone would create an event, is never processed, and the run ends with
  the message about an unexpected error.
\<close>

theorem skip_and_continue_counterexample:
  "messages_get broken_mailbox ''m0'' = Inl OtherException \<and>
   process_messages broken_mailbox memory_calendar central
     ''first@example.org'' ''second@example.org'' [''m0'', ''m2''] 0 [] fresh =
     (Inl OtherException, [], fresh) \<and>
   main broken_mailbox memory_calendar central ''first@example.org'' ''second@example.org''
     ''subject:sample'' 6 fresh = ([UnexpectedError], fresh) \<and>
   process_messages broken_mailbox memory_calendar central
     ''first@example.org'' ''second@example.org'' [''m2''] 0 [] fresh =
     (Inr 1, [],
      \<lparr>calendar = [sample_event],
       calls = [EventsList sample_request, EventsInsert sample_event True]\<rparr>)"
proof -
  have g0: "messages_get broken_mailbox ''m0'' = Inl OtherException"
    by (simp add: broken_mailbox_def)
  have g2: "messages_get broken_mailbox ''m2'' = Inr [(''Subject'', sample_subject)]"
    by (simp add: broken_mailbox_def)
  have l: "get_confirmation_emails broken_mailbox ''subject:sample'' 6 = Inr [''m0'', ''m2'']"
    by (simp add: get_confirmation_emails_def broken_mailbox_def)
  have p: "process_messages broken_mailbox memory_calendar central
     ''first@example.org'' ''second@example.org'' [''m0'', ''m2''] 0 [] fresh =
     (Inl OtherException, [], fresh)"
    using g0 by simp
  have m: "main broken_mailbox memory_calendar central ''first@example.org''
      ''second@example.org'' ''subject:sample'' 6 fresh = ([UnexpectedError], fresh)"
    by (simp add: main_def l p del: process_messages.simps)
  have s: "process_messages broken_mailbox memory_calendar central
     ''first@example.org'' ''second@example.org'' [''m2''] 0 [] fresh =
     (Inr 1, [],
      \<lparr>calendar = [sample_event],
       calls = [EventsList sample_request, EventsInsert sample_event True]\<rparr>)"
    using g2 extract_sample create_sample_fresh by simp
  from g0 p m s show ?thesis by blast
qed

text \<open>
  C9, amended. In a batch that has reached a message, a fetch that raises \<^verbatim>\<open>HttpError\<close>,
  an extraction that fails (a format mismatch, a parse failure, a missing subject), an
  event that is not created (it already exists, or its insert raises \<^verbatim>\<open>HttpError\<close>) and a
  calendar query that raises \<^verbatim>\<open>HttpError\<close> each end that message's round only: the loop
  continues with the later messages from the same count, and a failed fetch and a failed
  extraction leave the world as it was. A fetch that raises any other exception is not
  handled in the round: it leaves the loop, and the later messages are not processed.
\<close>

theorem skip_and_continue:
  assumes "process_messages gmail cal env email1 email2 earlier n out w = (Inr k, out1, w1)"
  shows "(messages_get gmail message = Inl HttpError \<longrightarrow>
            process_messages gmail cal env email1 email2 (earlier @ message # later) n out w =
            process_messages gmail cal env email1 email2 later k (out1 @ [MessageError]) w1) \<and>
         (messages_get gmail message = Inr msg \<and> extract_event_details msg = Inl err \<longrightarrow>
            process_messages gmail cal env email1 email2 (earlier @ message # later) n out w =
            process_messages gmail cal env email1 email2 later k out1 w1) \<and>
         (messages_get gmail message = Inr msg \<and> extract_event_details msg = Inr details \<and>
          create_calendar_event cal env details email1 email2 w1 = (Inr None, w2) \<longrightarrow>
            process_messages gmail cal env email1 email2 (earlier @ message # later) n out w =
            process_messages gmail cal env email1 email2 later k out1 w2) \<and>
         (messages_get gmail message = Inr msg \<and> extract_event_details msg = Inr details \<and>
          create_calendar_event cal env details email1 email2 w1 = (Inl HttpError, w2) \<longrightarrow>
            process_messages gmail cal env email1 email2 (earlier @ message # later) n out w =
            process_messages gmail cal env email1 email2 later k (out1 @ [MessageError]) w2) \<and>
         (messages_get gmail message = Inl e \<and> e \<noteq> HttpError \<longrightarrow>
            process_messages gmail cal env email1 email2 (earlier @ message # later) n out w =
            (Inl e, out1, w1))"
  unfolding process_messages_append [of _ _ _ _ _ earlier] assms by simp

theorem skip_and_continue_witness:
  "process_messages sample_mailbox memory_calendar central
     ''first@example.org'' ''second@example.org'' [''m0'', ''m1'', ''m2'', ''m2''] 0 [] fresh =
   (Inr 1, [MessageError],
    \<lparr>calendar = [sample_event],
     calls = [EventsList sample_request, EventsInsert sample_event True,
              EventsList sample_request]\<rparr>)"
proof -
  let ?run = "process_messages sample_mailbox memory_calendar central
     ''first@example.org'' ''second@example.org''"
  let ?w1 = "\<lparr>calendar = [sample_event],
     calls = [EventsList sample_request, EventsInsert sample_event True]\<rparr>"
  let ?w2 = "\<lparr>calendar = [sample_event],
     calls = [EventsList sample_request, EventsInsert sample_event True,
              EventsList sample_request]\<rparr>"
  have g0: "messages_get sample_mailbox ''m0'' = Inl HttpError"
    by (simp add: sample_mailbox_def mailbox_def)
  have start: "?run [] 0 [] fresh = (Inr 0, [], fresh)" by simp
  from skip_and_continue [OF start, of "''m0''"] g0
  have s0: "?run [''m0'', ''m1'', ''m2'', ''m2''] 0 [] fresh =
      ?run [''m1'', ''m2'', ''m2''] 0 [MessageError] fresh"
    by simp
  have s1: "?run [''m1'', ''m2'', ''m2''] 0 [MessageError] fresh =
      ?run [''m2'', ''m2''] 0 [MessageError] fresh"
    using messages_get_m1 extract_advanced by simp
  have s2: "?run [''m2'', ''m2''] 0 [MessageError] fresh = ?run [''m2''] 1 [MessageError] ?w1"
    using messages_get_m2 extract_sample create_sample_fresh by simp
  have d: "create_calendar_event memory_calendar central sample_details
     ''first@example.org'' ''second@example.org'' ?w1 = (Inr None, ?w2)"
    using create_sample_duplicate [of ?w1] by simp
  have s3: "?run [''m2''] 1 [MessageError] ?w1 = (Inr 1, [MessageError], ?w2)"
    using messages_get_m2 extract_sample d by simp
  show ?thesis unfolding s0 s1 s2 s3 ..
qed

subsection \<open>The final count\<close>

lemma create_calendar_event_created:
  assumes "create_calendar_event cal env details email1 email2 w = (r, w')"
  shows "\<exists>new. calls w' = calls w @ new \<and>
           length (filter created new) = (case r of Inr (Some event) \<Rightarrow> 1 | _ \<Rightarrow> 0)"
proof -
  from create_calendar_event_trace [OF assms]
  consider (none) "calls w' = calls w" "\<exists>e. r = Inl e"
    | (query) request where "calls w' = calls w @ [EventsList request]"
        "\<forall>event. r \<noteq> Inr (Some event)"
    | (insert) event ok where "calls w' = calls w @
          [EventsList \<lparr>timeMin = start_dateTime event, timeMax = end_dateTime event,
                       q = summary event\<rparr>, EventsInsert event ok]"
        "ok \<longleftrightarrow> (\<exists>e. r = Inr (Some e))"
    by blast
  then show ?thesis
  proof cases
    case none
    then show ?thesis by auto
  next
    case query
    then show ?thesis by (auto split: sum.splits option.splits)
  next
    case insert
    then show ?thesis by (auto split: sum.splits option.splits)
  qed
qed

lemma process_messages_count:
  "process_messages gmail cal env email1 email2 ms n out w = (r, out', w') \<Longrightarrow>
     \<exists>errs new. out' = out @ errs \<and> set errs \<subseteq> {MessageError} \<and> calls w' = calls w @ new \<and>
       (\<forall>k. r = Inr k \<longrightarrow> k = n + length (filter created new))"
proof (induction ms arbitrary: n out w)
  case Nil
  then show ?case by auto
next
  case (Cons m ms)
  show ?case
  proof (cases "messages_get gmail m")
    case (Inl e)
    show ?thesis
    proof (cases "e = HttpError")
      case True
      with Inl Cons.prems
      have "process_messages gmail cal env email1 email2 ms n (out @ [MessageError]) w =
          (r, out', w')" by simp
      from Cons.IH [OF this] show ?thesis by auto
    next
      case False
      with Inl Cons.prems show ?thesis by auto
    qed
  next
    case (Inr msg)
    show ?thesis
    proof (cases "extract_event_details msg")
      case (Inl err)
      with Inr Cons.prems
      have "process_messages gmail cal env email1 email2 ms n out w = (r, out', w')" by simp
      from Cons.IH [OF this] show ?thesis .
    next
      case details: (Inr details)
      obtain r1 w1 where c: "create_calendar_event cal env details email1 email2 w = (r1, w1)"
        by (cases "create_calendar_event cal env details email1 email2 w")
      from create_calendar_event_created [OF c] obtain new1 where
        n1: "calls w1 = calls w @ new1"
          "length (filter created new1) = (case r1 of Inr (Some event) \<Rightarrow> 1 | _ \<Rightarrow> 0)"
        by blast
      show ?thesis
      proof (cases r1)
        case (Inl e)
        show ?thesis
        proof (cases "e = HttpError")
          case True
          with Inl Inr details c Cons.prems
          have "process_messages gmail cal env email1 email2 ms n (out @ [MessageError]) w1 =
              (r, out', w')" by simp
          from Cons.IH [OF this] n1 Inl show ?thesis by auto
        next
          case False
          with Inl Inr details c Cons.prems n1 show ?thesis by auto
        qed
      next
        case result: (Inr result)
        show ?thesis
        proof (cases result)
          case None
          with result Inr details c Cons.prems
          have "process_messages gmail cal env email1 email2 ms n out w1 = (r, out', w')"
            by simp
          from Cons.IH [OF this] n1 result None show ?thesis by auto
        next
          case (Some event)
          with result Inr details c Cons.prems
          have "process_messages gmail cal env email1 email2 ms (n + 1) out w1 = (r, out', w')"
            by simp
          from Cons.IH [OF this] n1 result Some show ?thesis by auto
        qed
      qed
    qed
  qed
qed

text \<open>
  C8, as stated, fails when the list retrieval returns no messages: the run prints that
  no messages were found and returns, and no count is printed.
\<close>

theorem final_count_counterexample:
  "get_confirmation_emails (mailbox []) ''subject:none'' 6 = Inr [] \<and>
   main (mailbox []) memory_calendar central ''first@example.org'' ''second@example.org''
     ''subject:none'' 6 fresh = ([NoMessagesExit], fresh)"
  by (simp add: main_def get_confirmation_emails_def mailbox_def)

text \<open>
  C8, amended. A run whose list retrieval returns at least one message and that is not
  ended by an unexpected error prints, last and once, the count of the events created:
  the number of inserts of this run that returned an event. Before it the run prints
  nothing but the messages about single messages. A run whose list retrieval returns no
  message prints that no messages were found, changes nothing and prints no count.
\<close>

theorem final_count:
  assumes "get_confirmation_emails gmail query max_messages = Inr messages"
    and "main gmail cal env email1 email2 query max_messages w = (out, w')"
  shows "(messages = [] \<longrightarrow> out = [NoMessagesExit] \<and> w' = w) \<and>
         (messages \<noteq> [] \<and> UnexpectedError \<notin> set out \<longrightarrow>
            (\<exists>errs new. out = errs @ [ProcessCompleted (length (filter created new))] \<and>
               set errs \<subseteq> {MessageError} \<and> calls w' = calls w @ new))"
proof (cases "messages = []")
  case True
  with assms show ?thesis by (simp add: main_def)
next
  case False
  obtain r out1 w1 where
    p: "process_messages gmail cal env email1 email2 messages 0 [] w = (r, out1, w1)"
    by (cases "process_messages gmail cal env email1 email2 messages 0 [] w")
  from process_messages_count [OF p] obtain errs new where
    c: "out1 = errs" "set errs \<subseteq> {MessageError}" "calls w1 = calls w @ new"
      "\<forall>k. r = Inr k \<longrightarrow> k = length (filter created new)"
    by auto
  show ?thesis
  proof (cases r)
    case (Inl e)
    with assms False p show ?thesis by (auto simp: main_def)
  next
    case (Inr k)
    with assms False p have "out = out1 @ [ProcessCompleted k]" "w' = w1"
      by (auto simp: main_def)
    with c Inr False show ?thesis by auto
  qed
qed

theorem final_count_witness:
  "main sample_mailbox memory_calendar central ''first@example.org'' ''second@example.org''
     ''subject:sample'' 6 fresh =
     ([ProcessCompleted 1],
      \<lparr>calendar = [sample_event],
       calls = [EventsList sample_request, EventsInsert sample_event True]\<rparr>) \<and>
   length (filter created [EventsList sample_request, EventsInsert sample_event True]) = 1"
proof -
  have g: "get_confirmation_emails sample_mailbox ''subject:sample'' 6 = Inr [''m1'', ''m2'']"
    by (simp add: get_confirmation_emails_def sample_mailbox_def mailbox_def)
  have p: "process_messages sample_mailbox memory_calendar central ''first@example.org''
      ''second@example.org'' [''m1'', ''m2''] 0 [] fresh =
    (Inr 1, [], \<lparr>calendar = [sample_event],
       calls = [EventsList sample_request, EventsInsert sample_event True]\<rparr>)"
    using messages_get_m1 extract_advanced messages_get_m2 extract_sample create_sample_fresh
    by simp
  have m: "main sample_mailbox memory_calendar central ''first@example.org''
      ''second@example.org'' ''subject:sample'' 6 fresh =
     ([ProcessCompleted 1],
      \<lparr>calendar = [sample_event],
       calls = [EventsList sample_request, EventsInsert sample_event True]\<rparr>)"
    by (simp add: main_def g p del: process_messages.simps)
  from final_count [OF g m] m show ?thesis by simp
qed

section \<open>Formatting a parsed timestamp back\<close>

subsection \<open>Stepping the matcher\<close>




declare re_match.simps(2) [simp del]

subsection \<open>Digits under the classes\<close>











subsection \<open>The directives on their canonical text\<close>






subsection \<open>Names under the classes\<close>





















subsection \<open>Parsing the canonical text\<close>





subsection \<open>Converting the groups of the canonical text\<close>










subsection \<open>The four formats\<close>












end
